theory Spec2Isabelle
  imports Complex_Main "HOL-Library.Word" "HOL-Library.Log_Nat"
begin

unbundle bit_operations_syntax

section \<open>The timeline controller of hls.js (src/controller/timeline-controller.js)\<close>

text \<open>
  A shallow embedding of the class \<open>TimelineController\<close>. The fields of \<open>this\<close>
  become the fields of a record; a field the JavaScript writes as \<open>_x\<close> is named
  \<open>x\<close> here (an Isabelle name cannot start with an underscore). The class has both
  \<open>textTrack1\<close> and \<open>_textTrack1\<close>: the second is named \<open>u_textTrack1\<close>.

  The JavaScript numbers the code computes with (cue times, sequence numbers) are
  modelled as IEEE 754 doubles, \<open>js_number\<close> below. The discontinuity counter and the
  initial PTS, which the code only stores, compares for presence and passes on, are
  \<open>int\<close>. A property that may be \<open>undefined\<close> is an \<open>option\<close>.
  Reading a property of \<open>undefined\<close> throws a TypeError: a handler that can throw
  returns \<open>js_error \<times> controller + controller\<close>, with \<open>Inl\<close> the exception and the
  state in which it was thrown (the controller lives on in that state).

  The collaborators are outside the file and are modelled by their interface: the caption
  decoder (\<open>Cea608Parser\<close>) by the calls made to it, the subtitle parser
  (\<open>WebVTTParser\<close>) as a parameter, the cue handler \<open>_Cues\<close>, the logger and the event
  bus by the log of effects, a media element by the list of its text tracks
  (\<open>media.textTracks\<close> is taken to be defined, and the cue list of a track to be
  readable). The handlers \<open>onLevelSwitching\<close> and \<open>onFragParsingUserdata\<close> and the two
  \<open>newCue\<close> closures of the constructor, which create the caption tracks and call
  \<open>addCues\<close>, are not modelled: they run the external decoder.
\<close>

subsection \<open>JavaScript numbers\<close>

text \<open>
  A number is NaN, an infinity, negative zero, or a finite value: \<open>Fin 0\<close> is positive
  zero, and \<open>Fin q\<close> stands for a double when \<open>q\<close> is representable in binary64. The
  operations compute the exact result and round it to the nearest double, ties to even.
\<close>

datatype js_number = NaN | PosInf | NegInf | NegZero | Fin rat

definition pow2 :: "int \<Rightarrow> rat" where
  "pow2 e = (if 0 \<le> e then 2 ^ nat e else 1 / 2 ^ nat (- e))"

text \<open>The integer \<open>e\<close> with \<open>2 ^ e \<le> q < 2 ^ (e + 1)\<close>, for positive \<open>q\<close>.\<close>

definition floor_log2 :: "rat \<Rightarrow> int" where
  "floor_log2 q =
     (let d = bitlen (fst (quotient_of q)) - bitlen (snd (quotient_of q))
      in if pow2 d \<le> q then d else d - 1)"

definition round_half_even :: "rat \<Rightarrow> int" where
  "round_half_even m =
     (let f = \<lfloor>m\<rfloor>; r = m - of_int f
      in if r < 1/2 then f else if 1/2 < r then f + 1 else if even f then f else f + 1)"

text \<open>
  A positive rational rounded to binary64: 53 bits of significand, exponents from -1022
  (below that the spacing stays \<open>2 ^ -1074\<close>, the subnormal numbers, down to 0) to 1023
  (above that the result is infinite, \<open>None\<close>).
\<close>

definition round_mag :: "rat \<Rightarrow> rat option" where
  "round_mag q =
     (let e = max (floor_log2 q) (- 1022);
          n = round_half_even (q / pow2 (e - 52))
      in if 1024 \<le> (if n = 2 ^ 53 then e + 1 else e) then None
         else Some (of_int n * pow2 (e - 52)))"

definition signed :: "bool \<Rightarrow> rat option \<Rightarrow> js_number" where
  "signed neg m =
     (case m of
        None \<Rightarrow> (if neg then NegInf else PosInf)
      | Some r \<Rightarrow> (if r = 0 then (if neg then NegZero else Fin 0) else Fin (if neg then - r else r)))"

text \<open>The double nearest to a rational: how a decimal literal such as \<open>1.8\<close> is read.\<close>

definition round_double :: "rat \<Rightarrow> js_number" where
  "round_double q = (if q = 0 then Fin 0 else signed (q < 0) (round_mag \<bar>q\<bar>))"

fun is_neg :: "js_number \<Rightarrow> bool" where
  "is_neg NegInf = True"
| "is_neg NegZero = True"
| "is_neg (Fin q) = (q < 0)"
| "is_neg x = False"

fun is_inf :: "js_number \<Rightarrow> bool" where
  "is_inf PosInf = True"
| "is_inf NegInf = True"
| "is_inf x = False"

fun val :: "js_number \<Rightarrow> rat" where
  "val (Fin q) = q"
| "val x = 0"

fun js_neg :: "js_number \<Rightarrow> js_number" where
  "js_neg NaN = NaN"
| "js_neg PosInf = NegInf"
| "js_neg NegInf = PosInf"
| "js_neg NegZero = Fin 0"
| "js_neg (Fin q) = (if q = 0 then NegZero else Fin (- q))"

text \<open>\<open>a + b\<close>, \<open>a - b\<close> and \<open>a / b\<close>.\<close>

definition js_add :: "js_number \<Rightarrow> js_number \<Rightarrow> js_number" where
  "js_add a b =
     (if a = NaN \<or> b = NaN then NaN
      else if is_inf a then (if is_inf b \<and> b \<noteq> a then NaN else a)
      else if is_inf b then b
      else if val a + val b = 0 then (if is_neg a \<and> is_neg b then NegZero else Fin 0)
      else round_double (val a + val b))"

definition js_sub :: "js_number \<Rightarrow> js_number \<Rightarrow> js_number" where
  "js_sub a b = js_add a (js_neg b)"

definition js_div :: "js_number \<Rightarrow> js_number \<Rightarrow> js_number" where
  "js_div a b =
     (if a = NaN \<or> b = NaN then NaN
      else if is_inf a then (if is_inf b then NaN else signed (is_neg a \<noteq> is_neg b) None)
      else if is_inf b then signed (is_neg a \<noteq> is_neg b) (Some 0)
      else if val b = 0 then (if val a = 0 then NaN else signed (is_neg a \<noteq> is_neg b) None)
      else if val a = 0 then signed (is_neg a \<noteq> is_neg b) (Some 0)
      else signed (is_neg a \<noteq> is_neg b) (round_mag (\<bar>val a\<bar> / \<bar>val b\<bar>)))"

text \<open>\<open>a < b\<close>, \<open>a > b\<close>, \<open>a >= b\<close> and \<open>a === b\<close> on numbers: false when one of them is NaN;
  negative and positive zero are equal.\<close>

definition js_lt :: "js_number \<Rightarrow> js_number \<Rightarrow> bool" where
  "js_lt a b =
     (a \<noteq> NaN \<and> b \<noteq> NaN \<and> a \<noteq> PosInf \<and> b \<noteq> NegInf \<and>
      (a = NegInf \<and> b \<noteq> NegInf \<or> b = PosInf \<and> a \<noteq> PosInf \<or>
       \<not> is_inf a \<and> \<not> is_inf b \<and> val a < val b))"

definition js_gt :: "js_number \<Rightarrow> js_number \<Rightarrow> bool" where
  "js_gt a b = js_lt b a"

definition js_ge :: "js_number \<Rightarrow> js_number \<Rightarrow> bool" where
  "js_ge a b = (a \<noteq> NaN \<and> b \<noteq> NaN \<and> \<not> js_lt a b)"

definition js_strict_eq :: "js_number \<Rightarrow> js_number \<Rightarrow> bool" where
  "js_strict_eq a b = (a \<noteq> NaN \<and> b \<noteq> NaN \<and> \<not> js_lt a b \<and> \<not> js_lt b a)"

text \<open>\<open>Math.min\<close> and \<open>Math.max\<close> of two numbers: NaN when one of them is NaN; negative
  zero is less than positive zero.\<close>

definition Math_min :: "js_number \<Rightarrow> js_number \<Rightarrow> js_number" where
  "Math_min a b =
     (if a = NaN \<or> b = NaN then NaN
      else if js_lt a b then a else if js_lt b a then b
      else if is_neg a then a else b)"

definition Math_max :: "js_number \<Rightarrow> js_number \<Rightarrow> js_number" where
  "Math_max a b =
     (if a = NaN \<or> b = NaN then NaN
      else if js_lt a b then b else if js_lt b a then a
      else if is_neg a then b else a)"

subsection \<open>Data\<close>

type_synonym byte = "8 word"

type_synonym cueRange = "js_number \<times> js_number"

text \<open>A track object is addressed by the media element that owns it and its position in
  that element's \<open>textTracks\<close> list (the list only ever grows).\<close>

type_synonym track_ref = "nat \<times> nat"

type_synonym screen = nat

datatype js_error = TypeError

datatype channel = TextTrack1 | TextTrack2

record cue =
  cue_id :: string
  cue_startTime :: js_number
  cue_endTime :: js_number
  cue_text :: string

record text_track =
  kind :: string
  label :: string
  language :: string
  mode :: string
  cues :: "cue list"
  flag_textTrack1 :: bool
  flag_textTrack2 :: bool

record manifest_track =
  name :: string
  lang :: string
  is_default :: bool

record frag =
  ftype :: string
  sn :: js_number
  cc :: int
  start :: js_number
  trackId :: nat

record frag_data =
  frag :: frag
  payload :: "byte list"

record vtt_cc =
  cc_start :: js_number
  cc_prevCC :: "int option"
  cc_new :: bool

record vtt_ccs =
  ccOffset :: int
  presentationOffset :: int
  entries :: "int \<rightharpoonup> vtt_cc"

record hls_config =
  enableCEA708Captions :: bool
  enableWebVTT :: bool

text \<open>What the controller does to its collaborators, in the order it does it.\<close>

datatype effect =
    Cea608Reset
  | CuesNewCue "track_ref option" js_number js_number screen
  | WebVTTParse "byte list" int int
  | TrackAddCue track_ref cue
  | LoggerLog string
  | SubtitleFragProcessed bool frag

record controller =
  config :: hls_config
  enabled :: bool
  textTracks :: "track_ref list"
  tracks :: "manifest_track list"
  unparsedVttFrags :: "frag_data list"
  initPTS :: "int option"
  cueRanges :: "cueRange list"
  cea608Parser :: bool
  media :: "nat option"
  lastSn :: "js_number option"
  prevCC :: "int option"
  vttCCs :: "vtt_ccs option"
  textTrack1 :: "track_ref option"
  textTrack2 :: "track_ref option"
  u_textTrack1 :: "track_ref option"
  u_textTrack2 :: "track_ref option"
  medias :: "nat \<Rightarrow> text_track list"
  effects :: "effect list"

text \<open>The result of a handler that can throw.\<close>

type_synonym outcome = "js_error \<times> controller + controller"

text \<open>
  \<open>cea608Parser\<close> says whether \<open>this._cea608Parser\<close> exists (the decoder itself is
  external). \<open>medias\<close> is the store of media elements: the text tracks of each, by
  reference, so that a track held in \<open>textTracks\<close> and the same track reached through
  \<open>media.textTracks\<close> are one object. \<open>effects\<close> is the log of calls to the
  collaborators.
\<close>

subsection \<open>The overlap resolver: \<open>intersection\<close> and \<open>addCues\<close>\<close>

definition intersection :: "js_number \<Rightarrow> js_number \<Rightarrow> js_number \<Rightarrow> js_number \<Rightarrow> js_number" where
  "intersection x1 x2 y1 y2 = js_sub (Math_min x2 y2) (Math_max x1 y1)"

text \<open>
  The loop \<open>for (let i = ranges.length; i--;)\<close>: \<open>addCues_loop (Suc i)\<close> runs the body at
  index \<open>i\<close> and goes on with \<open>i\<close>. The result is the range list, the flag \<open>merged\<close>,
  and whether the body executed \<open>return\<close>.
\<close>

fun addCues_loop :: "nat \<Rightarrow> cueRange list \<Rightarrow> bool \<Rightarrow> js_number \<Rightarrow> js_number \<Rightarrow> cueRange list \<times> bool \<times> bool" where
  "addCues_loop 0 ranges merged startTime endTime = (ranges, merged, False)"
| "addCues_loop (Suc i) ranges merged startTime endTime =
     (let cueRange = ranges ! i;
          overlap = intersection (fst cueRange) (snd cueRange) startTime endTime
      in if js_ge overlap (Fin 0) then
           (let ranges' = ranges[i := (Math_min (fst cueRange) startTime, Math_max (snd cueRange) endTime)]
            in if js_gt (js_div overlap (js_sub endTime startTime)) (Fin (1/2)) then (ranges', True, True)
               else addCues_loop i ranges' True startTime endTime)
         else addCues_loop i ranges merged startTime endTime)"

definition this_channel :: "controller \<Rightarrow> channel \<Rightarrow> track_ref option" where
  "this_channel s channel = (case channel of TextTrack1 \<Rightarrow> textTrack1 s | TextTrack2 \<Rightarrow> textTrack2 s)"

definition addCues :: "channel \<Rightarrow> js_number \<Rightarrow> js_number \<Rightarrow> screen \<Rightarrow> controller \<Rightarrow> controller" where
  "addCues channel startTime endTime scr s =
     (case addCues_loop (length (cueRanges s)) (cueRanges s) False startTime endTime of
        (ranges, merged, returned) \<Rightarrow>
          if returned then s\<lparr>cueRanges := ranges\<rparr>
          else s\<lparr>cueRanges := (if \<not> merged then ranges @ [(startTime, endTime)] else ranges),
                 effects := effects s @ [CuesNewCue (this_channel s channel) startTime endTime scr]\<rparr>)"

subsection \<open>The byte-pair demultiplexer: \<open>_extractCea608Data\<close>\<close>

text \<open>
  The elements of \<open>byteArray\<close> are bytes. \<open>byteArray[position]\<close>: a read past the end
  of a JavaScript array does not throw, it gives \<open>undefined\<close> (\<open>None\<close>). The bitwise
  \<open>&\<close> converts \<open>undefined\<close> to 0.
\<close>

definition byteArray_get :: "byte list \<Rightarrow> nat \<Rightarrow> byte option" where
  "byteArray_get byteArray position =
     (if position < length byteArray then Some (byteArray ! position) else None)"

definition js_and :: "byte \<Rightarrow> byte option \<Rightarrow> byte" where
  "js_and m v = (case v of None \<Rightarrow> 0 | Some b \<Rightarrow> m AND b)"

text \<open>
  The loop \<open>for (var j = 0; j < count; j++)\<close>, by the number of iterations left. Beside
  \<open>actualCCBytes\<close> it returns the indices it has read, in order.
\<close>

fun extract_loop :: "byte list \<Rightarrow> nat \<Rightarrow> nat \<Rightarrow> byte list \<Rightarrow> nat list \<Rightarrow> byte list \<times> nat list" where
  "extract_loop byteArray 0 position actualCCBytes reads = (actualCCBytes, reads)"
| "extract_loop byteArray (Suc k) position actualCCBytes reads =
     (let tmpByte = byteArray_get byteArray position;
          ccbyte1 = js_and 0x7F (byteArray_get byteArray (position + 1));
          ccbyte2 = js_and 0x7F (byteArray_get byteArray (position + 2));
          ccValid = (js_and 4 tmpByte \<noteq> 0);
          ccType = js_and 3 tmpByte;
          reads' = reads @ [position, position + 1, position + 2]
      in if ccbyte1 = 0 \<and> ccbyte2 = 0 then
           extract_loop byteArray k (position + 3) actualCCBytes reads'
         else if ccValid then
           (if ccType = 0 then
              extract_loop byteArray k (position + 3) (actualCCBytes @ [ccbyte1, ccbyte2]) reads'
            else extract_loop byteArray k (position + 3) actualCCBytes reads')
         else extract_loop byteArray k (position + 3) actualCCBytes reads')"

text \<open>\<open>count = byteArray[0] & 31\<close>; the function with the indices it reads (index 0 first,
  \<open>position\<close> starts at 2); the function itself; and whether one of the indices read is
  past the end of the array.\<close>

definition cc_count :: "byte list \<Rightarrow> nat" where
  "cc_count byteArray = unat (js_and 31 (byteArray_get byteArray 0))"

definition extractCea608Data_reads :: "byte list \<Rightarrow> byte list \<times> nat list" where
  "extractCea608Data_reads byteArray = extract_loop byteArray (cc_count byteArray) 2 [] [0]"

definition extractCea608Data :: "byte list \<Rightarrow> byte list" where
  "extractCea608Data byteArray = fst (extractCea608Data_reads byteArray)"

definition reads_past_end :: "byte list \<Rightarrow> bool" where
  "reads_past_end byteArray =
     (\<exists>p \<in> set (snd (extractCea608Data_reads byteArray)). length byteArray \<le> p)"

subsection \<open>Construction and the track store\<close>

definition constructor :: "hls_config \<Rightarrow> (nat \<Rightarrow> text_track list) \<Rightarrow> controller" where
  "constructor cfg ms =
     \<lparr>config = cfg, enabled = True, textTracks = [], tracks = [], unparsedVttFrags = [],
      initPTS = None, cueRanges = [], cea608Parser = enableCEA708Captions cfg,
      media = None, lastSn = None, prevCC = None, vttCCs = None,
      textTrack1 = None, textTrack2 = None, u_textTrack1 = None, u_textTrack2 = None,
      medias = ms, effects = []\<rparr>"

text \<open>A reference that denotes no object of the store reads as \<open>undefined\<close>.\<close>

definition track_get :: "controller \<Rightarrow> track_ref \<Rightarrow> text_track option" where
  "track_get s r = (if snd r < length (medias s (fst r)) then Some (medias s (fst r) ! snd r) else None)"

definition track_update :: "track_ref \<Rightarrow> (text_track \<Rightarrow> text_track) \<Rightarrow> controller \<Rightarrow> controller" where
  "track_update r f s =
     (if snd r < length (medias s (fst r))
      then s\<lparr>medias := (medias s)(fst r := (medias s (fst r))[snd r := f (medias s (fst r) ! snd r)])\<rparr>
      else s)"

text \<open>\<open>clearCurrentCues(track)\<close>: nothing for \<open>undefined\<close>; otherwise every cue is removed.\<close>

definition clearCurrentCues :: "track_ref option \<Rightarrow> controller \<Rightarrow> controller" where
  "clearCurrentCues track s =
     (case track of None \<Rightarrow> s | Some r \<Rightarrow> track_update r (\<lambda>t. t\<lparr>cues := []\<rparr>) s)"

definition reuseVttTextTrack :: "text_track \<Rightarrow> manifest_track \<Rightarrow> bool" where
  "reuseVttTextTrack inUseTrack manifestTrack =
     (label inUseTrack = name manifestTrack \<and>
      \<not> (flag_textTrack1 inUseTrack \<or> flag_textTrack2 inUseTrack))"

text \<open>\<open>createTextTrack\<close>: \<open>media.addTextTrack\<close> appends a new, hidden, empty track to the
  media element's list and returns it; without a media element the result is \<open>undefined\<close>.\<close>

definition createTextTrack :: "string \<Rightarrow> string \<Rightarrow> string \<Rightarrow> controller \<Rightarrow> track_ref option \<times> controller" where
  "createTextTrack k l lg s =
     (case media s of
        None \<Rightarrow> (None, s)
      | Some m \<Rightarrow>
          (Some (m, length (medias s m)),
           s\<lparr>medias := (medias s)(m := medias s m @
                [\<lparr>kind = k, label = l, language = lg, mode = ''hidden'', cues = [],
                  flag_textTrack1 = False, flag_textTrack2 = False\<rparr>])\<rparr>))"

subsection \<open>Media and manifest events\<close>

definition onMediaAttaching :: "controller \<Rightarrow> nat \<Rightarrow> controller" where
  "onMediaAttaching s data_media = s\<lparr>media := Some data_media\<rparr>"

definition onMediaDetaching :: "controller \<Rightarrow> controller" where
  "onMediaDetaching s = clearCurrentCues (u_textTrack2 s) (clearCurrentCues (u_textTrack1 s) s)"

definition onManifestLoading :: "controller \<Rightarrow> controller" where
  "onManifestLoading s =
     (let s1 = s\<lparr>lastSn := Some (Fin (- 1)), prevCC := Some (- 1),
                  vttCCs := Some \<lparr>ccOffset = 0, presentationOffset = 0, entries = Map.empty\<rparr>\<rparr>
      in case media s1 of
           None \<Rightarrow> s1
         | Some m \<Rightarrow> fold (\<lambda>i. clearCurrentCues (Some (m, i))) [0..<length (medias s1 m)] s1)"

record manifest_data =
  subtitles :: "manifest_track list option"

text \<open>
  The body of \<open>this._tracks.forEach((track, index) => ...)\<close> in \<open>onManifestLoaded\<close>.
  \<open>inUseTracks\<close> is the live list of the media element, or \<open>[]\<close> without one.
  Assigning \<open>textTrack.mode\<close> when \<open>createTextTrack\<close> returned \<open>undefined\<close> throws.
\<close>

fun tracks_forEach :: "manifest_track list \<Rightarrow> nat \<Rightarrow> controller \<Rightarrow> outcome" where
  "tracks_forEach [] index s = Inr s"
| "tracks_forEach (track # rest) index s =
     (let reused =
            (case media s of
               None \<Rightarrow> None
             | Some m \<Rightarrow>
                 if index < length (medias s m) \<and> reuseVttTextTrack (medias s m ! index) track
                 then Some (m, index) else None);
          created =
            (case reused of
               Some r \<Rightarrow> (Some r, s)
             | None \<Rightarrow> createTextTrack ''subtitles'' (name track) (lang track) s)
      in case fst created of
           None \<Rightarrow> Inl (TypeError, snd created)
         | Some textTrack \<Rightarrow>
             tracks_forEach rest (Suc index)
               ((track_update textTrack
                   (\<lambda>t. t\<lparr>mode := (if is_default track then ''showing'' else ''hidden'')\<rparr>)
                   (snd created))
                \<lparr>textTracks := textTracks (snd created) @ [textTrack]\<rparr>))"

text \<open>\<open>this._unparsedVttFrags = this._unparsedVttFrags || []\<close> keeps the array: an array is
  truthy, and the constructor has set the field.\<close>

definition onManifestLoaded :: "controller \<Rightarrow> manifest_data \<Rightarrow> outcome" where
  "onManifestLoaded s data =
     (let s1 = s\<lparr>textTracks := [], unparsedVttFrags := unparsedVttFrags s,
                  initPTS := None, cueRanges := []\<rparr>
      in if enableWebVTT (config s1) then
           (let s2 = s1\<lparr>tracks := (case subtitles data of None \<Rightarrow> [] | Some ts \<Rightarrow> ts)\<rparr>
            in tracks_forEach (tracks s2) 0 s2)
         else Inr s1)"

subsection \<open>Fragment events\<close>

text \<open>
  \<open>WebVTTParser.parse(payload, initPTS, vttCCs, cc, onSuccess, onError)\<close> is not part of
  this file: it is a parameter. It is taken to call exactly one of its two callbacks,
  once, before it returns: \<open>Inr cues\<close> stands for \<open>onSuccess(cues)\<close>, \<open>Inl e\<close> for
  \<open>onError(e)\<close>. It receives the continuity map by reference, so it also returns the map
  as it has left it.
\<close>

type_synonym webvtt_parser = "byte list \<Rightarrow> int \<Rightarrow> vtt_ccs \<Rightarrow> int \<Rightarrow> vtt_ccs \<times> (string + cue list)"

text \<open>The sink's \<open>cues.getCueById(id)\<close>: the first cue of the track with this id, if any.\<close>

definition getCueById :: "cue list \<Rightarrow> string \<Rightarrow> cue option" where
  "getCueById cs i = find (\<lambda>c. cue_id c = i) cs"

text \<open>
  \<open>currentTrack.addCue(cue)\<close>. When the first call throws, the source adds a
  \<open>TextTrackCue\<close> built from the same start time, end time, text and id: in both cases a
  cue with these four fields ends up in the track.
\<close>

definition addCue :: "track_ref \<Rightarrow> cue \<Rightarrow> controller \<Rightarrow> controller" where
  "addCue r c s =
     (track_update r (\<lambda>t. t\<lparr>cues := cues t @ [c]\<rparr>) s)\<lparr>effects := effects s @ [TrackAddCue r c]\<rparr>"

text \<open>The body of \<open>cues.forEach(cue => ...)\<close> in the success callback. \<open>currentTrack\<close> is
  \<open>textTracks[frag.trackId]\<close>, \<open>undefined\<close> when the index is out of range.\<close>

fun cues_forEach :: "track_ref option \<Rightarrow> cue list \<Rightarrow> controller \<Rightarrow> outcome" where
  "cues_forEach currentTrack [] s = Inr s"
| "cues_forEach currentTrack (c # rest) s =
     (case currentTrack of
        None \<Rightarrow> Inl (TypeError, s)
      | Some r \<Rightarrow>
          (case track_get s r of
             None \<Rightarrow> Inl (TypeError, s)
           | Some t \<Rightarrow>
               if getCueById (cues t) (cue_id c) = None
               then cues_forEach currentTrack rest (addCue r c s)
               else cues_forEach currentTrack rest s))"

text \<open>\<open>textTracks[frag.trackId]\<close>.\<close>

definition currentTrack :: "track_ref list \<Rightarrow> frag \<Rightarrow> track_ref option" where
  "currentTrack textTracks' fr =
     (if trackId fr < length textTracks' then Some (textTracks' ! trackId fr) else None)"

definition parse_success :: "track_ref list \<Rightarrow> frag \<Rightarrow> cue list \<Rightarrow> controller \<Rightarrow> outcome" where
  "parse_success textTracks' fr cs s =
     (case cues_forEach (currentTrack textTracks' fr) cs s of
        Inl e \<Rightarrow> Inl e
      | Inr s1 \<Rightarrow> Inr (s1\<lparr>effects := effects s1 @ [SubtitleFragProcessed True fr]\<rparr>))"

definition parse_error :: "frag \<Rightarrow> string \<Rightarrow> controller \<Rightarrow> controller" where
  "parse_error fr e s =
     s\<lparr>effects := effects s @ [LoggerLog (''Failed to parse VTT cue: '' @ e), SubtitleFragProcessed False fr]\<rparr>"

text \<open>The continuity map after \<open>if (!vttCCs[frag.cc]) { vttCCs[frag.cc] = {...} }\<close>.\<close>

definition ensure_cc :: "vtt_ccs \<Rightarrow> int option \<Rightarrow> frag \<Rightarrow> vtt_ccs" where
  "ensure_cc v prevCC' fr =
     (if entries v (cc fr) = None
      then v\<lparr>entries := (entries v)(cc fr \<mapsto>
             \<lparr>cc_start = start fr, cc_prevCC = prevCC', cc_new = True\<rparr>)\<rparr>
      else v)"

text \<open>
  The subtitle path of \<open>onFragLoaded\<close> once the payload is not empty and the initial PTS
  \<open>pts\<close> is known (lines 272 to 304). \<open>vttCCs[frag.cc]\<close> throws when \<open>this._vttCCs\<close> is
  \<open>undefined\<close>, that is before the first \<open>onManifestLoading\<close>. The map is one object:
  the entry added to it is added to \<open>this._vttCCs\<close>.
\<close>

definition parse_subtitle :: "webvtt_parser \<Rightarrow> int \<Rightarrow> controller \<Rightarrow> frag_data \<Rightarrow> outcome" where
  "parse_subtitle parse pts s data =
     (let fr = frag data in
      case vttCCs s of
        None \<Rightarrow> Inl (TypeError, s)
      | Some v \<Rightarrow>
          (let v1 = ensure_cc v (prevCC s) fr;
               s1 = (if entries v (cc fr) = None
                     then s\<lparr>vttCCs := Some v1, prevCC := Some (cc fr)\<rparr> else s);
               textTracks' = textTracks s1;
               s2 = s1\<lparr>effects := effects s1 @ [WebVTTParse (payload data) pts (cc fr)]\<rparr>;
               parsed = parse (payload data) pts v1 (cc fr);
               s3 = s2\<lparr>vttCCs := Some (fst parsed)\<rparr>
           in case snd parsed of
                Inr cs \<Rightarrow> parse_success textTracks' fr cs s3
              | Inl e \<Rightarrow> Inr (parse_error fr e s3)))"

text \<open>\<open>this._lastSn + 1\<close>: NaN while \<open>_lastSn\<close> is \<open>undefined\<close>.\<close>

definition plus_one :: "js_number option \<Rightarrow> js_number" where
  "plus_one l = (case l of None \<Rightarrow> NaN | Some x \<Rightarrow> js_add x (Fin 1))"

definition onFragLoaded :: "webvtt_parser \<Rightarrow> controller \<Rightarrow> frag_data \<Rightarrow> outcome" where
  "onFragLoaded parse s data =
     (let fr = frag data in
      if ftype fr = ''main'' then
        (let s1 = (if \<not> js_strict_eq (sn fr) (plus_one (lastSn s))
                   then (if cea608Parser s then s\<lparr>effects := effects s @ [Cea608Reset]\<rparr> else s)
                   else s)
         in Inr (s1\<lparr>lastSn := Some (sn fr)\<rparr>))
      else if ftype fr = ''subtitle'' then
        (if payload data \<noteq> [] then
           (case initPTS s of
              None \<Rightarrow> Inr (s\<lparr>unparsedVttFrags := unparsedVttFrags s @ [data]\<rparr>)
            | Some pts \<Rightarrow> parse_subtitle parse pts s data)
         else Inr (s\<lparr>effects := effects s @ [SubtitleFragProcessed False fr]\<rparr>))
      else Inr s)"

text \<open>\<open>this._unparsedVttFrags.forEach(frag => this.onFragLoaded(frag))\<close>: an exception
  leaves the loop, and the handler.\<close>

fun frags_forEach :: "webvtt_parser \<Rightarrow> frag_data list \<Rightarrow> controller \<Rightarrow> outcome" where
  "frags_forEach parse [] s = Inr s"
| "frags_forEach parse (data # rest) s =
     (case onFragLoaded parse s data of
        Inl e \<Rightarrow> Inl e
      | Inr s1 \<Rightarrow> frags_forEach parse rest s1)"

definition onInitPtsFound :: "webvtt_parser \<Rightarrow> controller \<Rightarrow> int \<Rightarrow> outcome" where
  "onInitPtsFound parse s data_initPTS =
     (let s1 = (if initPTS s = None then s\<lparr>initPTS := Some data_initPTS\<rparr> else s)
      in if unparsedVttFrags s1 \<noteq> [] then
           (case frags_forEach parse (unparsedVttFrags s1) s1 of
              Inl e \<Rightarrow> Inl e
            | Inr s2 \<Rightarrow> Inr (s2\<lparr>unparsedVttFrags := []\<rparr>))
         else Inr s1)"

text \<open>
  The states the controller can be in: those reached from a new controller by handler
  invocations that complete. An invocation that throws is not a step.
\<close>

inductive reachable :: "controller \<Rightarrow> bool" where
  r_constructor: "reachable (constructor cfg ms)"
| r_onFragLoaded: "reachable s \<Longrightarrow> onFragLoaded parse s data = Inr s' \<Longrightarrow> reachable s'"
| r_onInitPtsFound: "reachable s \<Longrightarrow> onInitPtsFound parse s pts = Inr s' \<Longrightarrow> reachable s'"
| r_onManifestLoading: "reachable s \<Longrightarrow> reachable (onManifestLoading s)"
| r_onManifestLoaded: "reachable s \<Longrightarrow> onManifestLoaded s mdata = Inr s' \<Longrightarrow> reachable s'"
| r_onMediaAttaching: "reachable s \<Longrightarrow> reachable (onMediaAttaching s m)"
| r_onMediaDetaching: "reachable s \<Longrightarrow> reachable (onMediaDetaching s)"

section \<open>Notions used to state the properties\<close>

text \<open>The conditions of the body of the loop of \<open>addCues\<close>: the range overlaps the
  candidate (\<open>overlap >= 0\<close>), the range makes the handler return (\<open>overlap >= 0\<close> and
  \<open>overlap / (endTime - startTime) > 0.5\<close>), and the range as the body rewrites it.\<close>

definition overlaps :: "cueRange \<Rightarrow> js_number \<Rightarrow> js_number \<Rightarrow> bool" where
  "overlaps r startTime endTime = js_ge (intersection (fst r) (snd r) startTime endTime) (Fin 0)"

definition drops :: "cueRange \<Rightarrow> js_number \<Rightarrow> js_number \<Rightarrow> bool" where
  "drops r startTime endTime =
     (js_ge (intersection (fst r) (snd r) startTime endTime) (Fin 0) \<and>
      js_gt (js_div (intersection (fst r) (snd r) startTime endTime) (js_sub endTime startTime))
        (Fin (1/2)))"

definition extend :: "cueRange \<Rightarrow> js_number \<Rightarrow> js_number \<Rightarrow> cueRange" where
  "extend r startTime endTime = (Math_min (fst r) startTime, Math_max (snd r) endTime)"

text \<open>A controller to evaluate the handlers on: fresh, captions and WebVTT enabled, no
  media element with a text track.\<close>

definition example_config :: hls_config where
  "example_config = \<lparr>enableCEA708Captions = True, enableWebVTT = True\<rparr>"

definition example_controller :: controller where
  "example_controller = constructor example_config (\<lambda>m. [])"

text \<open>The \<open>j\<close>-th triplet \<open>(marker, byte1, byte2)\<close> as the loop of \<open>_extractCea608Data\<close>
  reads it, from offset 2; whether the triplet contributes output (valid bit \<open>0x04\<close> set,
  type \<open>marker & 0x03\<close> equal to 0, masked data bytes not both zero); and its output.\<close>

definition triplet :: "byte list \<Rightarrow> nat \<Rightarrow> byte option \<times> byte option \<times> byte option" where
  "triplet byteArray j =
     (byteArray_get byteArray (2 + 3 * j), byteArray_get byteArray (2 + 3 * j + 1),
      byteArray_get byteArray (2 + 3 * j + 2))"

definition kept :: "byte option \<times> byte option \<times> byte option \<Rightarrow> bool" where
  "kept t = (case t of (marker, byte1, byte2) \<Rightarrow>
     js_and 4 marker \<noteq> 0 \<and> js_and 3 marker = 0 \<and>
     \<not> (js_and 0x7F byte1 = 0 \<and> js_and 0x7F byte2 = 0))"

definition pair_of :: "byte option \<times> byte option \<times> byte option \<Rightarrow> byte list" where
  "pair_of t = (case t of (marker, byte1, byte2) \<Rightarrow> [js_and 0x7F byte1, js_and 0x7F byte2])"

text \<open>Fragments, cues, a parser and a manifest to evaluate the handlers on. The parser
  fails on the payload \<open>[0]\<close> and otherwise returns three cues, two of them with the
  same id; it leaves the continuity map as it is.\<close>

definition example_main :: "int \<Rightarrow> frag_data" where
  "example_main n =
     \<lparr>frag = \<lparr>ftype = ''main'', sn = Fin (of_int n), cc = 0, start = Fin 0, trackId = 0\<rparr>, payload = []\<rparr>"

definition example_subtitle :: "int \<Rightarrow> byte list \<Rightarrow> frag_data" where
  "example_subtitle n bytes =
     \<lparr>frag = \<lparr>ftype = ''subtitle'', sn = Fin (of_int n), cc = 0, start = Fin 0, trackId = 0\<rparr>,
      payload = bytes\<rparr>"

text \<open>A subtitle fragment whose \<open>trackId\<close> refers to no text track of the examples.\<close>

definition example_orphan :: frag_data where
  "example_orphan =
     \<lparr>frag = \<lparr>ftype = ''subtitle'', sn = Fin 3, cc = 0, start = Fin 0, trackId = 5\<rparr>,
      payload = [1]\<rparr>"

definition example_cue :: "string \<Rightarrow> cue" where
  "example_cue i = \<lparr>cue_id = i, cue_startTime = Fin 0, cue_endTime = Fin 1, cue_text = ''text''\<rparr>"

definition example_parser :: webvtt_parser where
  "example_parser bytes pts v c =
     (v, if bytes = [0] then Inl ''malformed'' else Inr [example_cue ''a'', example_cue ''b'', example_cue ''a''])"

definition example_manifest :: manifest_data where
  "example_manifest = \<lparr>subtitles = Some [\<lparr>name = ''English'', lang = ''en'', is_default = True\<rparr>]\<rparr>"

text \<open>A controller with one pending fragment, one cue range and one entry in the
  continuity map; and the same with a media element attached.\<close>

definition example_busy :: controller where
  "example_busy =
     example_controller
       \<lparr>unparsedVttFrags := [example_subtitle 1 [1]],
        cueRanges := [(Fin 0, Fin 10)],
        vttCCs := Some \<lparr>ccOffset = 0, presentationOffset = 0,
                        entries = [0 \<mapsto> \<lparr>cc_start = Fin 0, cc_prevCC = Some (- 1), cc_new = True\<rparr>]\<rparr>\<rparr>"

definition example_attached :: controller where
  "example_attached = onMediaAttaching example_busy 0"

text \<open>The cues that \<open>cues.forEach\<close> of the success callback adds to a track that holds
  \<open>present\<close>, in order; the cues of a track by reference; what the parser reports for a
  fragment in a state (nothing when \<open>this._vttCCs\<close> is \<open>undefined\<close>: the parser is not
  reached); the fragment of a "fragment processed" notification and the arguments of a call of
  the parser, to read them off the log of effects.\<close>

fun new_cues :: "cue list \<Rightarrow> cue list \<Rightarrow> cue list" where
  "new_cues present [] = []"
| "new_cues present (c # cs) =
     (if getCueById present (cue_id c) = None then c # new_cues (present @ [c]) cs
      else new_cues present cs)"

definition sink_cues :: "controller \<Rightarrow> track_ref \<Rightarrow> cue list" where
  "sink_cues s r = (case track_get s r of None \<Rightarrow> [] | Some t \<Rightarrow> cues t)"

definition parser_result :: "webvtt_parser \<Rightarrow> int \<Rightarrow> controller \<Rightarrow> frag_data \<Rightarrow> (string + cue list) option" where
  "parser_result parse pts s data =
     (case vttCCs s of
        None \<Rightarrow> None
      | Some v \<Rightarrow> Some (snd (parse (payload data) pts (ensure_cc v (prevCC s) (frag data)) (cc (frag data)))))"

fun notified :: "effect \<Rightarrow> frag list" where
  "notified (SubtitleFragProcessed b fr) = [fr]"
| "notified e = []"

fun parse_call :: "effect \<Rightarrow> (byte list \<times> int \<times> int) list" where
  "parse_call (WebVTTParse bytes pts c) = [(bytes, pts, c)]"
| "parse_call e = []"

text \<open>The controller after a media element was attached and a manifest with one subtitle
  track was loaded.\<close>

definition example_loaded :: controller where
  "example_loaded =
     \<lparr>config = example_config, enabled = True, textTracks = [(0, 0)],
      tracks = [\<lparr>name = ''English'', lang = ''en'', is_default = True\<rparr>],
      unparsedVttFrags = [], initPTS = None, cueRanges = [], cea608Parser = True,
      media = Some 0, lastSn = Some (Fin (- 1)), prevCC = Some (- 1),
      vttCCs = Some \<lparr>ccOffset = 0, presentationOffset = 0, entries = Map.empty\<rparr>,
      textTrack1 = None, textTrack2 = None, u_textTrack1 = None, u_textTrack2 = None,
      medias = (\<lambda>m. [])(0 := [\<lparr>kind = ''subtitles'', label = ''English'', language = ''en'',
                                mode = ''showing'', cues = [],
                                flag_textTrack1 = False, flag_textTrack2 = False\<rparr>]),
      effects = []\<rparr>"

text \<open>The fragment's \<open>trackId\<close> refers to a text track of the controller that exists.\<close>

definition has_track :: "controller \<Rightarrow> frag \<Rightarrow> bool" where
  "has_track s fr =
     (case currentTrack (textTracks s) fr of None \<Rightarrow> False | Some r \<Rightarrow> track_get s r \<noteq> None)"

section \<open>The overlap resolver\<close>

text \<open>What the loop returns when no range among the \<open>n\<close> it scans makes it return, and
  when the first range to do so in scan order is at index \<open>i\<close>.\<close>

lemma addCues_loop_forward:
  "n \<le> length rs \<Longrightarrow> (\<And>j. j < n \<Longrightarrow> \<not> drops (rs ! j) st en) \<Longrightarrow>
   addCues_loop n rs m st en =
     (map (\<lambda>j. if j < n \<and> overlaps (rs ! j) st en then extend (rs ! j) st en else rs ! j) [0..<length rs],
      m \<or> (\<exists>j<n. overlaps (rs ! j) st en), False)"
proof (induction n arbitrary: rs m)
  case 0
  then show ?case by (simp add: map_nth)
next
  case (Suc n)
  let ?r = "rs ! n"
  have nd: "\<not> drops ?r st en" using Suc.prems(2)[of n] by simp
  show ?case
  proof (cases "overlaps ?r st en")
    case True
    let ?rs' = "rs[n := extend ?r st en]"
    have len: "n \<le> length ?rs'" using Suc.prems(1) by simp
    have nd': "\<And>j. j < n \<Longrightarrow> \<not> drops (?rs' ! j) st en"
      using Suc.prems(2) by simp
    have step: "addCues_loop (Suc n) rs m st en = addCues_loop n ?rs' True st en"
      using True nd by (simp add: overlaps_def drops_def extend_def Let_def)
    have "map (\<lambda>j. if j < n \<and> overlaps (?rs' ! j) st en then extend (?rs' ! j) st en else ?rs' ! j) [0..<length ?rs']
        = map (\<lambda>j. if j < Suc n \<and> overlaps (rs ! j) st en then extend (rs ! j) st en else rs ! j) [0..<length rs]"
      using True Suc.prems(1) by (auto simp: nth_list_update less_Suc_eq)
    moreover have "(True \<or> (\<exists>j<n. overlaps (?rs' ! j) st en)) = (m \<or> (\<exists>j<Suc n. overlaps (rs ! j) st en))"
      using True by auto
    ultimately show ?thesis
      using Suc.IH[OF len nd', of True] step by simp
  next
    case False
    have step: "addCues_loop (Suc n) rs m st en = addCues_loop n rs m st en"
      using False by (simp add: overlaps_def Let_def)
    have len: "n \<le> length rs" using Suc.prems(1) by simp
    have "map (\<lambda>j. if j < n \<and> overlaps (rs ! j) st en then extend (rs ! j) st en else rs ! j) [0..<length rs]
        = map (\<lambda>j. if j < Suc n \<and> overlaps (rs ! j) st en then extend (rs ! j) st en else rs ! j) [0..<length rs]"
      using False by (auto simp: less_Suc_eq)
    moreover have "(m \<or> (\<exists>j<n. overlaps (rs ! j) st en)) = (m \<or> (\<exists>j<Suc n. overlaps (rs ! j) st en))"
      using False by (auto simp: less_Suc_eq)
    ultimately show ?thesis
      using Suc.IH[OF len, of m] Suc.prems(2) step by simp
  qed
qed

lemma addCues_loop_drop:
  "n \<le> length rs \<Longrightarrow> i < n \<Longrightarrow> drops (rs ! i) st en \<Longrightarrow>
   (\<And>j. i < j \<Longrightarrow> j < n \<Longrightarrow> \<not> drops (rs ! j) st en) \<Longrightarrow>
   addCues_loop n rs m st en =
     (map (\<lambda>j. if j = i \<or> (i < j \<and> j < n \<and> overlaps (rs ! j) st en) then extend (rs ! j) st en else rs ! j) [0..<length rs],
      True, True)"
proof (induction n arbitrary: rs m)
  case 0
  then show ?case by simp
next
  case (Suc n)
  let ?r = "rs ! n"
  show ?case
  proof (cases "i = n")
    case True
    have "addCues_loop (Suc n) rs m st en = (rs[n := extend ?r st en], True, True)"
      using True Suc.prems(3) by (simp add: drops_def extend_def Let_def)
    moreover have "rs[n := extend ?r st en]
        = map (\<lambda>j. if j = i \<or> (i < j \<and> j < Suc n \<and> overlaps (rs ! j) st en) then extend (rs ! j) st en else rs ! j) [0..<length rs]"
    proof (rule nth_equalityI)
      show "length (rs[n := extend ?r st en]) = length (map (\<lambda>j. if j = i \<or> (i < j \<and> j < Suc n \<and> overlaps (rs ! j) st en) then extend (rs ! j) st en else rs ! j) [0..<length rs])"
        by simp
    next
      fix j assume "j < length (rs[n := extend ?r st en])"
      then show "rs[n := extend ?r st en] ! j = map (\<lambda>j. if j = i \<or> (i < j \<and> j < Suc n \<and> overlaps (rs ! j) st en) then extend (rs ! j) st en else rs ! j) [0..<length rs] ! j"
        using True by (auto simp: nth_list_update)
    qed
    ultimately show ?thesis by simp
  next
    case False
    then have i: "i < n" using Suc.prems(2) by simp
    have nd: "\<not> drops ?r st en" using Suc.prems(4)[of n] i by simp
    show ?thesis
    proof (cases "overlaps ?r st en")
      case True
      let ?rs' = "rs[n := extend ?r st en]"
      have len: "n \<le> length ?rs'" using Suc.prems(1) by simp
      have d': "drops (?rs' ! i) st en" using Suc.prems(3) i by simp
      have nd': "\<And>j. i < j \<Longrightarrow> j < n \<Longrightarrow> \<not> drops (?rs' ! j) st en"
        using Suc.prems(4) by simp
      have step: "addCues_loop (Suc n) rs m st en = addCues_loop n ?rs' True st en"
        using True nd by (simp add: overlaps_def drops_def extend_def Let_def)
      have "map (\<lambda>j. if j = i \<or> (i < j \<and> j < n \<and> overlaps (?rs' ! j) st en) then extend (?rs' ! j) st en else ?rs' ! j) [0..<length ?rs']
          = map (\<lambda>j. if j = i \<or> (i < j \<and> j < Suc n \<and> overlaps (rs ! j) st en) then extend (rs ! j) st en else rs ! j) [0..<length rs]"
        using True Suc.prems(1) i by (auto simp: nth_list_update less_Suc_eq)
      then show ?thesis
        using Suc.IH[OF len i d' nd', of True] step by simp
    next
      case False
      have step: "addCues_loop (Suc n) rs m st en = addCues_loop n rs m st en"
        using False by (simp add: overlaps_def Let_def)
      have len: "n \<le> length rs" using Suc.prems(1) by simp
      have "map (\<lambda>j. if j = i \<or> (i < j \<and> j < n \<and> overlaps (rs ! j) st en) then extend (rs ! j) st en else rs ! j) [0..<length rs]
          = map (\<lambda>j. if j = i \<or> (i < j \<and> j < Suc n \<and> overlaps (rs ! j) st en) then extend (rs ! j) st en else rs ! j) [0..<length rs]"
        using False by (auto simp: less_Suc_eq)
      then show ?thesis
        using Suc.IH[OF len i Suc.prems(3), of m] Suc.prems(4) step by simp
    qed
  qed
qed

text \<open>
  C1, as amended. Let \<open>i\<close> be the first range, scanning from the last index down, that
  overlaps the candidate (\<open>overlap >= 0\<close>) with \<open>overlap / (endTime - startTime) > 0.5\<close>,
  both as the code computes them.
  Then the candidate is dropped: nothing is forwarded to the cue sink and no range is
  appended; range \<open>i\<close> keeps the merge applied to it, \<open>[min of starts, max of ends]\<close>;
  every range below \<open>i\<close> is left as it was; a range above \<open>i\<close> has been extended when it
  overlaps the candidate and is unchanged otherwise.
\<close>

theorem addCues_drop:
  assumes "i < length (cueRanges s)"
    and "drops (cueRanges s ! i) startTime endTime"
    and "\<forall>j. i < j \<and> j < length (cueRanges s) \<longrightarrow> \<not> drops (cueRanges s ! j) startTime endTime"
  shows "effects (addCues channel startTime endTime scr s) = effects s \<and>
         length (cueRanges (addCues channel startTime endTime scr s)) = length (cueRanges s) \<and>
         cueRanges (addCues channel startTime endTime scr s) ! i = extend (cueRanges s ! i) startTime endTime \<and>
         (\<forall>j<i. cueRanges (addCues channel startTime endTime scr s) ! j = cueRanges s ! j) \<and>
         (\<forall>j. i < j \<and> j < length (cueRanges s) \<longrightarrow>
            cueRanges (addCues channel startTime endTime scr s) ! j =
              (if overlaps (cueRanges s ! j) startTime endTime
               then extend (cueRanges s ! j) startTime endTime else cueRanges s ! j))"
proof -
  let ?rs = "cueRanges s"
  have loop: "addCues_loop (length ?rs) ?rs False startTime endTime =
     (map (\<lambda>j. if j = i \<or> (i < j \<and> j < length ?rs \<and> overlaps (?rs ! j) startTime endTime)
                then extend (?rs ! j) startTime endTime else ?rs ! j) [0..<length ?rs], True, True)"
    using assms by (intro addCues_loop_drop) auto
  have res: "addCues channel startTime endTime scr s =
     s\<lparr>cueRanges := map (\<lambda>j. if j = i \<or> (i < j \<and> j < length ?rs \<and> overlaps (?rs ! j) startTime endTime)
                then extend (?rs ! j) startTime endTime else ?rs ! j) [0..<length ?rs]\<rparr>"
    by (simp add: addCues_def loop)
  show ?thesis using assms(1) by (simp add: res)
qed

lemma example_ranges:
  "drops (Fin 30, Fin 40) (Fin 36) (Fin 42) \<and>
   \<not> drops (Fin 41, Fin 50) (Fin 36) (Fin 42) \<and>
   overlaps (Fin 41, Fin 50) (Fin 36) (Fin 42) \<and>
   extend (Fin 30, Fin 40) (Fin 36) (Fin 42) = (Fin 30, Fin 42) \<and>
   extend (Fin 41, Fin 50) (Fin 36) (Fin 42) = (Fin 36, Fin 50)"
  by code_simp

theorem addCues_drop_witness:
  "cueRanges (addCues TextTrack1 (Fin 36) (Fin 42) 0
      (example_controller\<lparr>cueRanges := [(Fin 0, Fin 37), (Fin 30, Fin 40), (Fin 41, Fin 50)]\<rparr>))
     = [(Fin 0, Fin 37), (Fin 30, Fin 42), (Fin 36, Fin 50)] \<and>
   effects (addCues TextTrack1 (Fin 36) (Fin 42) 0
      (example_controller\<lparr>cueRanges := [(Fin 0, Fin 37), (Fin 30, Fin 40), (Fin 41, Fin 50)]\<rparr>)) = []"
proof -
  let ?s = "example_controller\<lparr>cueRanges := [(Fin 0, Fin 37), (Fin 30, Fin 40), (Fin 41, Fin 50)]\<rparr>"
  let ?s' = "addCues TextTrack1 (Fin 36) (Fin 42) 0 ?s"
  have h1: "1 < length (cueRanges ?s)" by simp
  have h2: "drops (cueRanges ?s ! 1) (Fin 36) (Fin 42)"
    using example_ranges by simp
  have h3: "\<forall>j. 1 < j \<and> j < length (cueRanges ?s) \<longrightarrow> \<not> drops (cueRanges ?s ! j) (Fin 36) (Fin 42)"
  proof (intro allI impI)
    fix j :: nat assume "1 < j \<and> j < length (cueRanges ?s)"
    then have "j = 2" by simp
    then show "\<not> drops (cueRanges ?s ! j) (Fin 36) (Fin 42)"
      using example_ranges by simp
  qed
  note t = addCues_drop [OF h1 h2 h3, of TextTrack1 0]
  have l: "length (cueRanges ?s') = 3" using t by simp
  have e0: "cueRanges ?s' ! 0 = (Fin 0, Fin 37)" using t by simp
  have e1: "cueRanges ?s' ! 1 = (Fin 30, Fin 42)" using t example_ranges by simp
  have e2: "cueRanges ?s' ! 2 = (Fin 36, Fin 50)" using t example_ranges by simp
  have "cueRanges ?s' = [(Fin 0, Fin 37), (Fin 30, Fin 42), (Fin 36, Fin 50)]"
    using l e0 e1 e2 by (intro nth_equalityI) (auto simp: less_Suc_eq numeral_3_eq_3 numeral_2_eq_2)
  moreover have "effects ?s' = []"
    using t by (simp add: example_controller_def constructor_def)
  ultimately show ?thesis by simp
qed

text \<open>
  C1 as stated fails for a candidate whose end is before its start: against the range
  \<open>[0, 10]\<close> the candidate \<open>[5, 3]\<close> has overlap \<open>-2\<close> and duration \<open>-2\<close>, a ratio of 1,
  but the source tests the ratio only when the overlap is not negative. The candidate is
  appended as a range and forwarded.
\<close>

lemma example_inverted_cue:
  "js_gt (js_div (intersection (Fin 0) (Fin 10) (Fin 5) (Fin 3)) (js_sub (Fin 3) (Fin 5))) (Fin (1/2)) \<and>
   addCues_loop (Suc 0) [(Fin 0, Fin 10)] False (Fin 5) (Fin 3) = ([(Fin 0, Fin 10)], False, False)"
  by code_simp

theorem addCues_inverted_cue_counterexample:
  "js_gt (js_div (intersection (Fin 0) (Fin 10) (Fin 5) (Fin 3)) (js_sub (Fin 3) (Fin 5))) (Fin (1/2)) \<and>
   cueRanges (addCues TextTrack1 (Fin 5) (Fin 3) 0 (example_controller\<lparr>cueRanges := [(Fin 0, Fin 10)]\<rparr>))
     = [(Fin 0, Fin 10), (Fin 5, Fin 3)] \<and>
   effects (addCues TextTrack1 (Fin 5) (Fin 3) 0 (example_controller\<lparr>cueRanges := [(Fin 0, Fin 10)]\<rparr>))
     = [CuesNewCue None (Fin 5) (Fin 3) 0]"
  using example_inverted_cue
  by (simp add: addCues_def example_controller_def constructor_def this_channel_def)

text \<open>
  C2. When no range yields \<open>overlap / (endTime - startTime) > 0.5\<close>, as the code computes
  the ratio (a ratio of exactly 0.5 included), the candidate is forwarded to the cue sink;
  every range with \<open>overlap >= 0\<close> is extended to \<open>[min of starts, max of ends]\<close> and the
  others are unchanged; the candidate's interval is appended as a new range exactly when
  no range had \<open>overlap >= 0\<close>.
\<close>

theorem addCues_forward:
  assumes "\<forall>i<length (cueRanges s).
      \<not> js_gt (js_div (intersection (fst (cueRanges s ! i)) (snd (cueRanges s ! i)) startTime endTime)
                 (js_sub endTime startTime)) (Fin (1/2))"
  shows "addCues channel startTime endTime scr s =
     s\<lparr>cueRanges :=
          map (\<lambda>r. if overlaps r startTime endTime then extend r startTime endTime else r) (cueRanges s) @
          (if \<exists>r \<in> set (cueRanges s). overlaps r startTime endTime then [] else [(startTime, endTime)]),
        effects := effects s @ [CuesNewCue (this_channel s channel) startTime endTime scr]\<rparr>"
proof -
  let ?rs = "cueRanges s"
  let ?f = "\<lambda>r. if overlaps r startTime endTime then extend r startTime endTime else r"
  have nd: "\<And>j. j < length ?rs \<Longrightarrow> \<not> drops (?rs ! j) startTime endTime"
    using assms by (simp add: drops_def)
  have "addCues_loop (length ?rs) ?rs False startTime endTime =
     (map (\<lambda>j. if j < length ?rs \<and> overlaps (?rs ! j) startTime endTime
                then extend (?rs ! j) startTime endTime else ?rs ! j) [0..<length ?rs],
      False \<or> (\<exists>j<length ?rs. overlaps (?rs ! j) startTime endTime), False)"
    using nd by (intro addCues_loop_forward) auto
  moreover have "map (\<lambda>j. if j < length ?rs \<and> overlaps (?rs ! j) startTime endTime
                then extend (?rs ! j) startTime endTime else ?rs ! j) [0..<length ?rs] = map ?f ?rs"
    by (intro nth_equalityI) auto
  moreover have "(\<exists>j<length ?rs. overlaps (?rs ! j) startTime endTime) = (\<exists>r \<in> set ?rs. overlaps r startTime endTime)"
    by (metis in_set_conv_nth)
  ultimately have loop: "addCues_loop (length ?rs) ?rs False startTime endTime =
     (map ?f ?rs, (\<exists>r \<in> set ?rs. overlaps r startTime endTime), False)"
    by simp
  show ?thesis by (simp add: addCues_def loop)
qed

text \<open>
  The witness is a ratio that is 0.5 by rounding: the range \<open>[0, 1.8]\<close> and the candidate
  \<open>[0.7, 2.9]\<close>. The overlap \<open>1.8 - 0.7\<close> and the duration \<open>2.9 - 0.7\<close> are computed as the
  doubles 1.1 and 2.2, whose quotient is exactly 0.5: the candidate is forwarded, and the
  range becomes \<open>[0, 2.9]\<close>.
\<close>

lemma example_half:
  "js_div (intersection (Fin 0) (round_double (18/10)) (round_double (7/10)) (round_double (29/10)))
     (js_sub (round_double (29/10)) (round_double (7/10))) = Fin (1/2) \<and>
   \<not> js_gt (Fin (1/2)) (Fin (1/2)) \<and>
   overlaps (Fin 0, round_double (18/10)) (round_double (7/10)) (round_double (29/10)) \<and>
   extend (Fin 0, round_double (18/10)) (round_double (7/10)) (round_double (29/10))
     = (Fin 0, round_double (29/10)) \<and>
   \<not> js_gt (js_div (intersection (Fin 20) (Fin 30) (round_double (7/10)) (round_double (29/10)))
     (js_sub (round_double (29/10)) (round_double (7/10)))) (Fin (1/2)) \<and>
   \<not> overlaps (Fin 20, Fin 30) (round_double (7/10)) (round_double (29/10))"
  by code_simp

theorem addCues_forward_witness:
  "addCues TextTrack1 (round_double (7/10)) (round_double (29/10)) 0
     (example_controller\<lparr>cueRanges := [(Fin 0, round_double (18/10)), (Fin 20, Fin 30)]\<rparr>) =
   example_controller
     \<lparr>cueRanges := [(Fin 0, round_double (29/10)), (Fin 20, Fin 30)],
      effects := [CuesNewCue None (round_double (7/10)) (round_double (29/10)) 0]\<rparr> \<and>
   js_div (intersection (Fin 0) (round_double (18/10)) (round_double (7/10)) (round_double (29/10)))
     (js_sub (round_double (29/10)) (round_double (7/10))) = Fin (1/2)"
proof -
  let ?s = "example_controller\<lparr>cueRanges := [(Fin 0, round_double (18/10)), (Fin 20, Fin 30)]\<rparr>"
  have h: "\<forall>i<length (cueRanges ?s).
      \<not> js_gt (js_div (intersection (fst (cueRanges ?s ! i)) (snd (cueRanges ?s ! i))
                   (round_double (7/10)) (round_double (29/10)))
                 (js_sub (round_double (29/10)) (round_double (7/10)))) (Fin (1/2))"
    using example_half by (simp add: less_Suc_eq numeral_2_eq_2)
  show ?thesis
    using addCues_forward [OF h, of TextTrack1 0] example_half
    by (simp add: this_channel_def example_controller_def constructor_def)
qed

section \<open>The byte-pair demultiplexer\<close>

text \<open>The output and the reads of the loop, from any position and accumulator.\<close>

lemma extract_loop_fst:
  "fst (extract_loop bs k p acc rd) =
     acc @ concat (map pair_of (filter kept
       (map (\<lambda>j. (byteArray_get bs (p + 3 * j), byteArray_get bs (p + 3 * j + 1),
                   byteArray_get bs (p + 3 * j + 2))) [0..<k])))"
proof (induction k arbitrary: p acc rd)
  case 0
  then show ?case by simp
next
  case (Suc k)
  have shift: "map (\<lambda>j. (byteArray_get bs (p + 3 * j), byteArray_get bs (p + 3 * j + 1),
                   byteArray_get bs (p + 3 * j + 2))) [0..<Suc k]
      = (byteArray_get bs p, byteArray_get bs (p + 1), byteArray_get bs (p + 2)) #
        map (\<lambda>j. (byteArray_get bs (p + 3 + 3 * j), byteArray_get bs (p + 3 + 3 * j + 1),
                   byteArray_get bs (p + 3 + 3 * j + 2))) [0..<k]"
    by (simp only: map_upt_Suc) (simp add: algebra_simps)
  show ?case
    unfolding shift
    by (simp add: Suc.IH Let_def kept_def pair_of_def del: upt_Suc)
qed

lemma extract_loop_snd:
  "snd (extract_loop bs k p acc rd) =
     rd @ concat (map (\<lambda>j. [p + 3 * j, p + 3 * j + 1, p + 3 * j + 2]) [0..<k])"
proof (induction k arbitrary: p acc rd)
  case 0
  then show ?case by simp
next
  case (Suc k)
  have shift: "map (\<lambda>j. [p + 3 * j, p + 3 * j + 1, p + 3 * j + 2]) [0..<Suc k]
      = [p, p + 1, p + 2] # map (\<lambda>j. [p + 3 + 3 * j, p + 3 + 3 * j + 1, p + 3 + 3 * j + 2]) [0..<k]"
    by (simp only: map_upt_Suc) (simp add: algebra_simps)
  show ?case
    unfolding shift
    by (simp add: Suc.IH Let_def del: upt_Suc)
qed

text \<open>
  C7. For every byte array, \<open>_extractCea608Data\<close> returns, in input order, the bytes
  \<open>byte1 & 0x7F, byte2 & 0x7F\<close> of exactly those of the \<open>count = firstByte & 0x1F\<close>
  triplets read from offset 2 whose marker has the valid bit \<open>0x04\<close>, whose type
  \<open>marker & 0x03\<close> is 0, and whose masked data bytes are not both zero. The other
  triplets contribute nothing. (The result is the flat array of the pairs' bytes.)
\<close>

theorem extractCea608Data_pairs:
  "extractCea608Data byteArray =
     concat (map pair_of (filter kept (map (triplet byteArray) [0..<cc_count byteArray])))"
  by (simp add: extractCea608Data_def extractCea608Data_reads_def extract_loop_fst triplet_def [abs_def])

lemma cc_count_Nil: "cc_count [] = 0"
  by (simp add: cc_count_def byteArray_get_def js_and_def)

lemma reads_past_end_iff:
  "reads_past_end bs \<longleftrightarrow> bs = [] \<or> (0 < cc_count bs \<and> length bs < 2 + 3 * cc_count bs)"
proof -
  let ?k = "cc_count bs"
  have rd: "set (snd (extractCea608Data_reads bs)) =
      {0} \<union> (\<Union>j \<in> {0..<?k}. {2 + 3 * j, 2 + 3 * j + 1, 2 + 3 * j + 2})"
    by (auto simp: extractCea608Data_reads_def extract_loop_snd)
  show ?thesis
  proof (cases "bs = []")
    case True
    have "0 \<in> set (snd (extractCea608Data_reads bs))" using rd by simp
    then have "reads_past_end bs" using True unfolding reads_past_end_def by auto
    then show ?thesis using True by simp
  next
    case False
    then have pos: "0 < length bs" by simp
    have "reads_past_end bs \<longleftrightarrow> (\<exists>j<?k. length bs \<le> 2 + 3 * j + 2)"
      using pos unfolding reads_past_end_def rd by auto
    also have "\<dots> \<longleftrightarrow> 0 < ?k \<and> length bs < 2 + 3 * ?k"
    proof
      assume "\<exists>j<?k. length bs \<le> 2 + 3 * j + 2"
      then obtain j where "j < ?k" "length bs \<le> 2 + 3 * j + 2" by blast
      then show "0 < ?k \<and> length bs < 2 + 3 * ?k" by auto
    next
      assume a: "0 < ?k \<and> length bs < 2 + 3 * ?k"
      then have "?k - 1 < ?k" "length bs \<le> 2 + 3 * (?k - 1) + 2" by auto
      then show "\<exists>j<?k. length bs \<le> 2 + 3 * j + 2" by blast
    qed
    finally show ?thesis using False by simp
  qed
qed

text \<open>
  C9, as amended. There is a byte array on which \<open>_extractCea608Data\<close> reads an index
  past the end: the count is never checked against the length. It does so exactly when
  the array is empty (the read of \<open>byteArray[0]\<close>) or the count is at least 1 and
  \<open>2 + 3 * count\<close> exceeds the length.
\<close>

theorem extractCea608Data_reads_past_end:
  "(\<exists>byteArray. length byteArray < 2 + 3 * cc_count byteArray \<and> reads_past_end byteArray) \<and>
   (\<forall>byteArray. reads_past_end byteArray \<longleftrightarrow>
      byteArray = [] \<or> (0 < cc_count byteArray \<and> length byteArray < 2 + 3 * cc_count byteArray))"
proof -
  have "length [1 :: byte] < 2 + 3 * cc_count [1] \<and> reads_past_end [1 :: byte]"
    by (simp add: reads_past_end_iff cc_count_def byteArray_get_def js_and_def)
  then show ?thesis using reads_past_end_iff by blast
qed

text \<open>
  C9 as stated says that a read past the end happens whenever \<open>2 + 3 * count\<close> exceeds
  the length. On the one-byte array \<open>[0]\<close> the count is 0 and \<open>2 + 3 * 0 > 1\<close>, but the
  loop does not run and only index 0 is read.
\<close>

theorem extractCea608Data_count_zero_counterexample:
  "length [0 :: byte] < 2 + 3 * cc_count [0] \<and> \<not> reads_past_end [0 :: byte]"
  by (simp add: reads_past_end_def extractCea608Data_reads_def cc_count_def byteArray_get_def js_and_def)

text \<open>A sample with three triplets: a valid field-1 pair, a padding triplet (both data
  bytes zero after masking), and a triplet whose valid bit is clear.\<close>

lemma extractCea608Data_example:
  "extractCea608Data [0x43, 0xFF, 0xFC, 0x94, 0x2C, 0xFC, 0x80, 0x80, 0xF8, 0x41, 0x42] = [0x14, 0x2C]"
  by (simp add: extractCea608Data_pairs cc_count_def byteArray_get_def js_and_def triplet_def kept_def pair_of_def upt_rec)

section \<open>Media and manifest events\<close>

text \<open>The track store operations touch only the store.\<close>

lemma track_update_frame [simp]:
  "config (track_update r f s) = config s"
  "textTracks (track_update r f s) = textTracks s"
  "tracks (track_update r f s) = tracks s"
  "unparsedVttFrags (track_update r f s) = unparsedVttFrags s"
  "initPTS (track_update r f s) = initPTS s"
  "cueRanges (track_update r f s) = cueRanges s"
  "cea608Parser (track_update r f s) = cea608Parser s"
  "media (track_update r f s) = media s"
  "lastSn (track_update r f s) = lastSn s"
  "prevCC (track_update r f s) = prevCC s"
  "vttCCs (track_update r f s) = vttCCs s"
  "effects (track_update r f s) = effects s"
  by (simp_all add: track_update_def)

lemma clearCurrentCues_frame [simp]:
  "config (clearCurrentCues t s) = config s"
  "unparsedVttFrags (clearCurrentCues t s) = unparsedVttFrags s"
  "initPTS (clearCurrentCues t s) = initPTS s"
  "cueRanges (clearCurrentCues t s) = cueRanges s"
  "media (clearCurrentCues t s) = media s"
  "vttCCs (clearCurrentCues t s) = vttCCs s"
  "effects (clearCurrentCues t s) = effects s"
  by (simp_all add: clearCurrentCues_def split: option.splits)



text \<open>What the manifest events leave unchanged.\<close>

lemma fold_clearCurrentCues_frame:
  "unparsedVttFrags (fold (\<lambda>i. clearCurrentCues (Some (m, i))) is s) = unparsedVttFrags s \<and>
   initPTS (fold (\<lambda>i. clearCurrentCues (Some (m, i))) is s) = initPTS s \<and>
   cueRanges (fold (\<lambda>i. clearCurrentCues (Some (m, i))) is s) = cueRanges s \<and>
   vttCCs (fold (\<lambda>i. clearCurrentCues (Some (m, i))) is s) = vttCCs s \<and>
   config (fold (\<lambda>i. clearCurrentCues (Some (m, i))) is s) = config s \<and>
   media (fold (\<lambda>i. clearCurrentCues (Some (m, i))) is s) = media s \<and>
   effects (fold (\<lambda>i. clearCurrentCues (Some (m, i))) is s) = effects s"
  by (induction "is" arbitrary: s) simp_all

lemma onManifestLoading_frame:
  "unparsedVttFrags (onManifestLoading s) = unparsedVttFrags s"
  "initPTS (onManifestLoading s) = initPTS s"
  "cueRanges (onManifestLoading s) = cueRanges s"
  "vttCCs (onManifestLoading s) = Some \<lparr>ccOffset = 0, presentationOffset = 0, entries = Map.empty\<rparr>"
  "config (onManifestLoading s) = config s"
  by (simp_all add: onManifestLoading_def Let_def fold_clearCurrentCues_frame split: option.splits)

lemma createTextTrack_frame [simp]:
  "unparsedVttFrags (snd (createTextTrack k l lg s)) = unparsedVttFrags s"
  "initPTS (snd (createTextTrack k l lg s)) = initPTS s"
  "cueRanges (snd (createTextTrack k l lg s)) = cueRanges s"
  "vttCCs (snd (createTextTrack k l lg s)) = vttCCs s"
  by (simp_all add: createTextTrack_def split: option.splits)

lemma tracks_forEach_frame:
  "tracks_forEach ts index s = Inr s' \<Longrightarrow>
   unparsedVttFrags s' = unparsedVttFrags s \<and> initPTS s' = initPTS s \<and>
   cueRanges s' = cueRanges s \<and> vttCCs s' = vttCCs s"
proof (induction ts arbitrary: index s)
  case Nil
  then show ?case by simp
next
  case (Cons track rest)
  from Cons.prems show ?case
    by (auto simp: Let_def split: option.splits if_splits dest!: Cons.IH)
qed

lemma onManifestLoaded_frame:
  assumes "onManifestLoaded s mdata = Inr s'"
  shows "unparsedVttFrags s' = unparsedVttFrags s" "initPTS s' = None" "cueRanges s' = []"
    "vttCCs s' = vttCCs s"
  using assms
  by (auto simp: onManifestLoaded_def Let_def split: if_splits dest!: tracks_forEach_frame)

text \<open>
  C5, as amended. After \<open>onManifestLoading\<close> followed by a completed
  \<open>onManifestLoaded\<close>, the cue-range store is empty, the continuity map holds no
  per-discontinuity entry (only \<open>ccOffset\<close> and \<open>presentationOffset\<close>, both 0), the
  reference timestamp is unset, and the pending-fragment queue is what it was before:
  \<open>this._unparsedVttFrags = this._unparsedVttFrags || []\<close> keeps an existing array.
\<close>

theorem manifest_load_resets:
  assumes "onManifestLoaded (onManifestLoading s) mdata = Inr s'"
  shows "cueRanges s' = [] \<and>
         vttCCs s' = Some \<lparr>ccOffset = 0, presentationOffset = 0, entries = Map.empty\<rparr> \<and>
         initPTS s' = None \<and>
         unparsedVttFrags s' = unparsedVttFrags s"
  using onManifestLoaded_frame [OF assms] by (simp add: onManifestLoading_frame)

text \<open>The manifest events complete on the example (a media element is attached, so the
  subtitle track can be created).\<close>

lemma example_manifest_load_completes:
  "\<not> isl (onManifestLoaded (onManifestLoading example_attached) example_manifest)"
  by (simp add: onManifestLoaded_def onManifestLoading_def example_attached_def onMediaAttaching_def
      example_busy_def example_controller_def constructor_def example_config_def example_manifest_def
      createTextTrack_def track_update_def Let_def)

theorem manifest_load_resets_witness:
  "\<not> isl (onManifestLoaded (onManifestLoading example_attached) example_manifest) \<and>
   cueRanges (projr (onManifestLoaded (onManifestLoading example_attached) example_manifest)) = [] \<and>
   vttCCs (projr (onManifestLoaded (onManifestLoading example_attached) example_manifest))
     = Some \<lparr>ccOffset = 0, presentationOffset = 0, entries = Map.empty\<rparr> \<and>
   initPTS (projr (onManifestLoaded (onManifestLoading example_attached) example_manifest)) = None \<and>
   unparsedVttFrags (projr (onManifestLoaded (onManifestLoading example_attached) example_manifest))
     = [example_subtitle 1 [1]]"
proof -
  let ?X = "onManifestLoaded (onManifestLoading example_attached) example_manifest"
  have c: "\<not> isl ?X" by (rule example_manifest_load_completes)
  then have "?X = Inr (projr ?X)" by (cases ?X) simp_all
  from manifest_load_resets [OF this] c show ?thesis
    by (simp add: example_attached_def onMediaAttaching_def example_busy_def)
qed

text \<open>C5 as stated fails for the pending queue: a fragment queued before the manifest
  events is still queued after them.\<close>

theorem manifest_load_queue_counterexample:
  "\<not> isl (onManifestLoaded (onManifestLoading example_attached) example_manifest) \<and>
   unparsedVttFrags (projr (onManifestLoaded (onManifestLoading example_attached) example_manifest))
     = [example_subtitle 1 [1]]"
proof -
  let ?X = "onManifestLoaded (onManifestLoading example_attached) example_manifest"
  have c: "\<not> isl ?X" by (rule example_manifest_load_completes)
  then have "?X = Inr (projr ?X)" by (cases ?X) simp_all
  from onManifestLoaded_frame(1) [OF this] c show ?thesis
    by (simp add: onManifestLoading_frame example_attached_def onMediaAttaching_def example_busy_def)
qed

section \<open>The discontinuity sequencer\<close>

text \<open>Sums and comparisons of small sequence numbers, and the sum that rounds:
  \<open>2 ^ 53 + 1\<close> is \<open>2 ^ 53\<close>.\<close>

lemma example_sequence_numbers:
  "plus_one (Some (Fin (- 1))) = Fin 0 \<and> plus_one (Some (Fin 5)) = Fin 6 \<and>
   plus_one (Some (Fin 6)) = Fin 7 \<and>
   \<not> js_strict_eq (Fin 5) (Fin 0) \<and> js_strict_eq (Fin 6) (Fin 6) \<and> \<not> js_strict_eq (Fin 8) (Fin 7) \<and>
   plus_one (Some (Fin (2 ^ 53))) = Fin (2 ^ 53) \<and> js_strict_eq (Fin (2 ^ 53)) (Fin (2 ^ 53))"
  by code_simp

text \<open>
  C6, as amended. On a main fragment with sequence number \<open>sn\<close>, \<open>onFragLoaded\<close> calls
  the decoder's \<open>reset()\<close> if and only if the decoder exists (\<open>this._cea608Parser\<close>, created
  when \<open>enableCEA708Captions\<close> is set) and \<open>sn !== this._lastSn + 1\<close> holds as the code
  computes it, on doubles (the sum is NaN while \<open>_lastSn\<close> is \<open>undefined\<close>, and rounds
  from \<open>2 ^ 53\<close> on); it always stores \<open>sn\<close>. With a decoder and the stored number \<open>-1\<close>,
  the main fragments 5, 6, 8 cause exactly two calls of \<open>reset()\<close>.
\<close>

theorem onFragLoaded_main:
  "(ftype (frag data) = ''main'' \<longrightarrow>
      onFragLoaded parse s data =
        Inr (s\<lparr>effects := effects s @
                  (if cea608Parser s \<and> \<not> js_strict_eq (sn (frag data)) (plus_one (lastSn s))
                   then [Cea608Reset] else []),
                lastSn := Some (sn (frag data))\<rparr>)) \<and>
   (cea608Parser s \<and> lastSn s = Some (Fin (- 1)) \<and>
    ftype (frag d1) = ''main'' \<and> ftype (frag d2) = ''main'' \<and> ftype (frag d3) = ''main'' \<and>
    sn (frag d1) = Fin 5 \<and> sn (frag d2) = Fin 6 \<and> sn (frag d3) = Fin 8 \<longrightarrow>
      frags_forEach parse [d1, d2, d3] s =
        Inr (s\<lparr>effects := effects s @ [Cea608Reset, Cea608Reset], lastSn := Some (Fin 8)\<rparr>))"
  using example_sequence_numbers by (simp add: onFragLoaded_def Let_def)

theorem onFragLoaded_main_witness:
  "frags_forEach example_parser [example_main 5, example_main 6, example_main 8]
     (onManifestLoading example_controller) =
   Inr ((onManifestLoading example_controller)\<lparr>effects := [Cea608Reset, Cea608Reset], lastSn := Some (Fin 8)\<rparr>) \<and>
   onFragLoaded example_parser (onManifestLoading example_controller) (example_main 5) =
   Inr ((onManifestLoading example_controller)\<lparr>effects := [Cea608Reset], lastSn := Some (Fin 5)\<rparr>)"
proof -
  let ?s = "onManifestLoading example_controller"
  have f: "cea608Parser ?s" "lastSn ?s = Some (Fin (- 1))" "effects ?s = []"
    by (simp_all add: onManifestLoading_def example_controller_def constructor_def example_config_def)
  have m: "ftype (frag (example_main n)) = ''main''" "sn (frag (example_main n)) = Fin (of_int n)" for n
    by (simp_all add: example_main_def)
  from onFragLoaded_main [of "example_main 5" example_parser ?s "example_main 5" "example_main 6" "example_main 8"]
  show ?thesis using f m example_sequence_numbers by (simp del: frags_forEach.simps)
qed

text \<open>
  C6 as stated fails in two ways. When CEA-708 captions are disabled there is no decoder,
  and a main fragment 5 after the stored number \<open>-1\<close> signals no reset
  (\<open>if (cea608Parser)\<close>). And with a decoder, the stored number \<open>2 ^ 53\<close> and a main
  fragment \<open>2 ^ 53\<close>: the fragment is not the stored number plus one, but the code
  computes \<open>2 ^ 53 + 1\<close> as \<open>2 ^ 53\<close> and signals no reset.
\<close>

theorem onFragLoaded_main_counterexample:
  "\<not> js_strict_eq (sn (frag (example_main 5))) (plus_one (Some (Fin (- 1)))) \<and>
   onFragLoaded example_parser
     ((constructor \<lparr>enableCEA708Captions = False, enableWebVTT = True\<rparr> (\<lambda>m. []))\<lparr>lastSn := Some (Fin (- 1))\<rparr>)
     (example_main 5) =
   Inr ((constructor \<lparr>enableCEA708Captions = False, enableWebVTT = True\<rparr> (\<lambda>m. []))\<lparr>lastSn := Some (Fin 5)\<rparr>) \<and>
   effects ((constructor \<lparr>enableCEA708Captions = False, enableWebVTT = True\<rparr> (\<lambda>m. []))\<lparr>lastSn := Some (Fin 5)\<rparr>) = [] \<and>
   cea608Parser (example_controller\<lparr>lastSn := Some (Fin (2 ^ 53))\<rparr>) \<and>
   (2 :: rat) ^ 53 \<noteq> 2 ^ 53 + 1 \<and>
   onFragLoaded example_parser (example_controller\<lparr>lastSn := Some (Fin (2 ^ 53))\<rparr>) (example_main (2 ^ 53)) =
   Inr (example_controller\<lparr>lastSn := Some (Fin (2 ^ 53))\<rparr>) \<and>
   effects (example_controller\<lparr>lastSn := Some (Fin (2 ^ 53))\<rparr>) = []"
  using example_sequence_numbers
  by (simp add: onFragLoaded_def Let_def example_main_def constructor_def example_controller_def
      example_config_def)

section \<open>Cue dispatch and deduplication\<close>

text \<open>\<open>new_cues\<close> adds a cue only when no cue with its id is present; no two cues it adds
  share an id; afterwards every parsed cue has its id in the track.\<close>

lemma getCueById_None: "getCueById present i = None \<longleftrightarrow> i \<notin> cue_id ` set present"
  by (auto simp: getCueById_def find_None_iff)

lemma new_cues_subset: "set (new_cues present cs) \<subseteq> set cs"
  by (induction cs arbitrary: present) auto

lemma new_cues_fresh: "c \<in> set (new_cues present cs) \<Longrightarrow> cue_id c \<notin> cue_id ` set present"
proof (induction cs arbitrary: present)
  case Nil
  then show ?case by simp
next
  case (Cons a cs)
  then show ?case
    by (fastforce simp: getCueById_None split: if_splits)
qed

lemma new_cues_distinct: "distinct (map cue_id (new_cues present cs))"
proof (induction cs arbitrary: present)
  case Nil
  then show ?case by simp
next
  case (Cons a cs)
  have "cue_id a \<notin> cue_id ` set (new_cues (present @ [a]) cs)"
  proof
    assume "cue_id a \<in> cue_id ` set (new_cues (present @ [a]) cs)"
    then obtain x where x: "x \<in> set (new_cues (present @ [a]) cs)" "cue_id x = cue_id a"
      by auto
    from new_cues_fresh [OF x(1)] x(2) show False by simp
  qed
  then show ?case using Cons.IH by simp
qed

lemma new_cues_covers: "cue_id ` set cs \<subseteq> cue_id ` set (present @ new_cues present cs)"
proof (induction cs arbitrary: present)
  case Nil
  then show ?case by simp
next
  case (Cons a cs)
  show ?case
  proof (cases "getCueById present (cue_id a) = None")
    case True
    then show ?thesis using Cons.IH [of "present @ [a]"] by auto
  next
    case False
    then have "cue_id a \<in> cue_id ` set present" by (simp add: getCueById_None)
    then show ?thesis using False Cons.IH [of present] by auto
  qed
qed

text \<open>The loop over the parsed cues: what it leaves unchanged, when it throws, and what it
  adds to the track and to the log.\<close>

lemma track_get_track_update:
  "track_get s r = Some t \<Longrightarrow> track_get (track_update r f s) r = Some (f t)"
  by (auto simp: track_get_def track_update_def split: if_splits)

lemma track_get_addCue:
  "track_get s r = Some t \<Longrightarrow> track_get (addCue r c s) r = Some (t\<lparr>cues := cues t @ [c]\<rparr>)"
  by (auto simp: addCue_def track_get_def track_update_def split: if_splits)

lemma addCue_frame [simp]:
  "config (addCue r c s) = config s"
  "textTracks (addCue r c s) = textTracks s"
  "unparsedVttFrags (addCue r c s) = unparsedVttFrags s"
  "initPTS (addCue r c s) = initPTS s"
  "cueRanges (addCue r c s) = cueRanges s"
  "vttCCs (addCue r c s) = vttCCs s"
  "effects (addCue r c s) = effects s @ [TrackAddCue r c]"
  by (simp_all add: addCue_def)

lemma cues_forEach_frame:
  "cues_forEach ct cs s = Inr s' \<Longrightarrow>
   unparsedVttFrags s' = unparsedVttFrags s \<and> initPTS s' = initPTS s \<and>
   cueRanges s' = cueRanges s \<and> vttCCs s' = vttCCs s \<and> textTracks s' = textTracks s"
proof (induction cs arbitrary: s)
  case Nil
  then show ?case by simp
next
  case (Cons c cs)
  show ?case
  proof (cases ct)
    case None
    then show ?thesis using Cons.prems by simp
  next
    case (Some r)
    show ?thesis
    proof (cases "track_get s r")
      case None
      then show ?thesis using Cons.prems Some by simp
    next
      case (Some t)
      show ?thesis
      proof (cases "getCueById (cues t) (cue_id c) = None")
        case True
        then have "cues_forEach ct cs (addCue r c s) = Inr s'"
          using Cons.prems Some \<open>ct = Some r\<close> by simp
        from Cons.IH [OF this] show ?thesis by simp
      next
        case False
        then have "cues_forEach ct cs s = Inr s'"
          using Cons.prems Some \<open>ct = Some r\<close> by auto
        from Cons.IH [OF this] show ?thesis by simp
      qed
    qed
  qed
qed

lemma cues_forEach_None:
  "cues_forEach None cs s = Inr s' \<Longrightarrow> cs = [] \<and> s' = s"
  by (cases cs) simp_all

lemma cues_forEach_Some:
  "cues_forEach (Some r) cs s = Inr s' \<Longrightarrow> cs \<noteq> [] \<Longrightarrow> track_get s r \<noteq> None"
  by (cases cs) (auto split: option.splits)

lemma cues_forEach_added:
  "track_get s r = Some t \<Longrightarrow> cues_forEach (Some r) cs s = Inr s' \<Longrightarrow>
   effects s' = effects s @ map (TrackAddCue r) (new_cues (cues t) cs) \<and>
   track_get s' r = Some (t\<lparr>cues := cues t @ new_cues (cues t) cs\<rparr>)"
proof (induction cs arbitrary: s t)
  case Nil
  then show ?case by simp
next
  case (Cons c cs)
  show ?case
  proof (cases "getCueById (cues t) (cue_id c) = None")
    case True
    then have run: "cues_forEach (Some r) cs (addCue r c s) = Inr s'"
      using Cons.prems by simp
    from Cons.IH [OF track_get_addCue [OF Cons.prems(1)] run] True
    show ?thesis by simp
  next
    case False
    then have run: "cues_forEach (Some r) cs s = Inr s'"
      using Cons.prems by auto
    from Cons.IH [OF Cons.prems(1) run] False show ?thesis by auto
  qed
qed

lemma cues_forEach_completes:
  "track_get s r = Some t \<Longrightarrow> \<exists>s'. cues_forEach (Some r) cs s = Inr s'"
proof (induction cs arbitrary: s t)
  case Nil
  then show ?case by simp
next
  case (Cons c cs)
  then show ?case
    using track_get_addCue [OF Cons.prems] by (cases "getCueById (cues t) (cue_id c) = None") auto
qed

lemma track_get_effects [simp]: "track_get (s\<lparr>effects := e\<rparr>) r = track_get s r"
  by (simp add: track_get_def)

lemma track_get_vttCCs [simp]: "track_get (s\<lparr>vttCCs := v\<rparr>) r = track_get s r"
  by (simp add: track_get_def)

lemma track_get_prevCC [simp]: "track_get (s\<lparr>prevCC := v\<rparr>) r = track_get s r"
  by (simp add: track_get_def)

text \<open>The two callbacks and the subtitle path, by what the parser reports.\<close>

lemma parse_success_result:
  assumes "parse_success tts fr cs s = Inr s'"
  shows "unparsedVttFrags s' = unparsedVttFrags s \<and> initPTS s' = initPTS s \<and>
         cueRanges s' = cueRanges s \<and> vttCCs s' = vttCCs s \<and>
         (case currentTrack tts fr of
            None \<Rightarrow> cs = [] \<and> effects s' = effects s @ [SubtitleFragProcessed True fr] \<and> medias s' = medias s
          | Some r \<Rightarrow>
              effects s' = effects s @ map (TrackAddCue r) (new_cues (sink_cues s r) cs) @
                [SubtitleFragProcessed True fr] \<and>
              sink_cues s' r = sink_cues s r @ new_cues (sink_cues s r) cs)"
proof -
  from assms obtain s1 where run: "cues_forEach (currentTrack tts fr) cs s = Inr s1"
    and s': "s' = s1\<lparr>effects := effects s1 @ [SubtitleFragProcessed True fr]\<rparr>"
    by (auto simp: parse_success_def split: sum.splits)
  have frame: "unparsedVttFrags s' = unparsedVttFrags s \<and> initPTS s' = initPTS s \<and>
         cueRanges s' = cueRanges s \<and> vttCCs s' = vttCCs s"
    using cues_forEach_frame [OF run] s' by simp
  show ?thesis
  proof (cases "currentTrack tts fr")
    case None
    with run have "cs = [] \<and> s1 = s" by (simp add: cues_forEach_None)
    then show ?thesis using frame None s' by simp
  next
    case (Some r)
    show ?thesis
    proof (cases "track_get s r")
      case None
      have "cs = []"
      proof (rule ccontr)
        assume "cs \<noteq> []"
        from cues_forEach_Some [OF run [unfolded Some] this] None show False by simp
      qed
      then have "s1 = s" using run by simp
      then show ?thesis using frame Some s' None \<open>cs = []\<close> by (simp add: sink_cues_def)
    next
      case (Some t)
      from cues_forEach_added [OF Some run [unfolded \<open>currentTrack tts fr = Some r\<close>]]
      show ?thesis using frame \<open>currentTrack tts fr = Some r\<close> s' Some by (simp add: sink_cues_def)
    qed
  qed
qed

lemma parse_subtitle_Inl:
  assumes "vttCCs s = Some v"
    and "snd (parse (payload data) pts (ensure_cc v (prevCC s) (frag data)) (cc (frag data))) = Inl e"
  shows "\<exists>s'. parse_subtitle parse pts s data = Inr s' \<and>
     effects s' = effects s @ [WebVTTParse (payload data) pts (cc (frag data)),
        LoggerLog (''Failed to parse VTT cue: '' @ e), SubtitleFragProcessed False (frag data)] \<and>
     unparsedVttFrags s' = unparsedVttFrags s \<and> initPTS s' = initPTS s \<and>
     cueRanges s' = cueRanges s \<and> medias s' = medias s"
  using assms by (simp add: parse_subtitle_def Let_def parse_error_def)

lemma parse_subtitle_Inr:
  assumes "vttCCs s = Some v"
    and "snd (parse (payload data) pts (ensure_cc v (prevCC s) (frag data)) (cc (frag data))) = Inr cs"
    and "parse_subtitle parse pts s data = Inr s'"
  shows "unparsedVttFrags s' = unparsedVttFrags s \<and> initPTS s' = initPTS s \<and>
     cueRanges s' = cueRanges s \<and>
     (case currentTrack (textTracks s) (frag data) of
        None \<Rightarrow> cs = [] \<and>
          effects s' = effects s @ [WebVTTParse (payload data) pts (cc (frag data)),
            SubtitleFragProcessed True (frag data)] \<and> medias s' = medias s
      | Some r \<Rightarrow>
          effects s' = effects s @ WebVTTParse (payload data) pts (cc (frag data)) #
            map (TrackAddCue r) (new_cues (sink_cues s r) cs) @ [SubtitleFragProcessed True (frag data)] \<and>
          sink_cues s' r = sink_cues s r @ new_cues (sink_cues s r) cs)"
proof -
  let ?fr = "frag data"
  let ?v1 = "ensure_cc v (prevCC s) ?fr"
  let ?s1 = "if entries v (cc ?fr) = None then s\<lparr>vttCCs := Some ?v1, prevCC := Some (cc ?fr)\<rparr> else s"
  let ?s3 = "?s1\<lparr>effects := effects ?s1 @ [WebVTTParse (payload data) pts (cc ?fr)],
                 vttCCs := Some (fst (parse (payload data) pts ?v1 (cc ?fr)))\<rparr>"
  have run: "parse_success (textTracks ?s1) ?fr cs ?s3 = Inr s'"
    using assms by (simp add: parse_subtitle_def Let_def)
  have tt: "textTracks ?s1 = textTracks s" by simp
  have sc: "sink_cues ?s3 r = sink_cues s r" for r by (simp add: sink_cues_def)
  from parse_success_result [OF run] show ?thesis
    unfolding tt sc by (auto split: option.splits)
qed

lemma parse_subtitle_vttCCs:
  "parse_subtitle parse pts s data = Inr s' \<Longrightarrow> \<exists>v. vttCCs s = Some v"
  by (cases "vttCCs s") (simp_all add: parse_subtitle_def)

text \<open>
  The subtitle path completes when the continuity map is defined (any time after the first
  \<open>onManifestLoading\<close>) and, where the parser reports cues, \<open>frag.trackId\<close> refers to an
  existing text track. It keeps the text tracks and a defined continuity map.
\<close>

lemma track_update_length [simp]:
  "length (medias (track_update r f s) m) = length (medias s m)"
  by (simp add: track_update_def)

lemma addCue_length [simp]: "length (medias (addCue r c s) m) = length (medias s m)"
  by (simp add: addCue_def)

lemma cues_forEach_length:
  "cues_forEach ct cs s = Inr s' \<Longrightarrow> length (medias s' m) = length (medias s m)"
proof (induction cs arbitrary: s)
  case Nil
  then show ?case by simp
next
  case (Cons c cs)
  show ?case
  proof (cases ct)
    case None
    then show ?thesis using Cons.prems by simp
  next
    case (Some r)
    show ?thesis
    proof (cases "track_get s r")
      case None
      then show ?thesis using Cons.prems Some by simp
    next
      case (Some t)
      show ?thesis
      proof (cases "getCueById (cues t) (cue_id c) = None")
        case True
        then have "cues_forEach ct cs (addCue r c s) = Inr s'"
          using Cons.prems Some \<open>ct = Some r\<close> by simp
        from Cons.IH [OF this] show ?thesis by simp
      next
        case False
        then have "cues_forEach ct cs s = Inr s'"
          using Cons.prems Some \<open>ct = Some r\<close> by auto
        from Cons.IH [OF this] show ?thesis by simp
      qed
    qed
  qed
qed

lemma parse_subtitle_keeps:
  assumes "parse_subtitle parse pts s data = Inr s'"
  shows "textTracks s' = textTracks s \<and> vttCCs s' \<noteq> None \<and>
         (\<forall>m. length (medias s' m) = length (medias s m))"
proof -
  let ?fr = "frag data"
  from assms obtain v where v: "vttCCs s = Some v" using parse_subtitle_vttCCs by blast
  let ?v1 = "ensure_cc v (prevCC s) ?fr"
  let ?s1 = "if entries v (cc ?fr) = None then s\<lparr>vttCCs := Some ?v1, prevCC := Some (cc ?fr)\<rparr> else s"
  let ?s3 = "?s1\<lparr>effects := effects ?s1 @ [WebVTTParse (payload data) pts (cc ?fr)],
                 vttCCs := Some (fst (parse (payload data) pts ?v1 (cc ?fr)))\<rparr>"
  show ?thesis
  proof (cases "snd (parse (payload data) pts ?v1 (cc ?fr))")
    case (Inl e)
    then have "s' = parse_error ?fr e ?s3"
      using assms v by (simp add: parse_subtitle_def Let_def)
    then show ?thesis by (simp add: parse_error_def)
  next
    case (Inr cs)
    then have "parse_success (textTracks ?s1) ?fr cs ?s3 = Inr s'"
      using assms v by (simp add: parse_subtitle_def Let_def)
    then obtain s4 where run: "cues_forEach (currentTrack (textTracks ?s1) ?fr) cs ?s3 = Inr s4"
      and s': "s' = s4\<lparr>effects := effects s4 @ [SubtitleFragProcessed True ?fr]\<rparr>"
      by (auto simp: parse_success_def split: sum.splits)
    from cues_forEach_frame [OF run] cues_forEach_length [OF run] s'
    show ?thesis by simp
  qed
qed

lemma parse_subtitle_completes:
  assumes "vttCCs s \<noteq> None"
    and "\<forall>cs. parser_result parse pts s data = Some (Inr cs) \<and> cs \<noteq> [] \<longrightarrow> has_track s (frag data)"
  shows "\<exists>s'. parse_subtitle parse pts s data = Inr s'"
proof -
  let ?fr = "frag data"
  from assms(1) obtain v where v: "vttCCs s = Some v" by auto
  let ?v1 = "ensure_cc v (prevCC s) ?fr"
  let ?s1 = "if entries v (cc ?fr) = None then s\<lparr>vttCCs := Some ?v1, prevCC := Some (cc ?fr)\<rparr> else s"
  have pr: "parser_result parse pts s data = Some (snd (parse (payload data) pts ?v1 (cc ?fr)))"
    by (simp add: parser_result_def v)
  show ?thesis
  proof (cases "snd (parse (payload data) pts ?v1 (cc ?fr))")
    case (Inl e)
    then show ?thesis using v by (simp add: parse_subtitle_def Let_def)
  next
    case (Inr cs)
    define s1 where "s1 = ?s1"
    define s3 where "s3 = s1\<lparr>effects := effects s1 @ [WebVTTParse (payload data) pts (cc ?fr)],
                 vttCCs := Some (fst (parse (payload data) pts ?v1 (cc ?fr)))\<rparr>"
    have tt: "textTracks s1 = textTracks s" by (simp add: s1_def)
    have eq: "parse_subtitle parse pts s data = parse_success (textTracks s1) ?fr cs s3"
      using v Inr by (simp add: parse_subtitle_def Let_def s1_def s3_def)
    show ?thesis
    proof (cases "cs = []")
      case True
      then show ?thesis unfolding eq by (simp add: parse_success_def)
    next
      case False
      with assms(2) pr Inr have "has_track s ?fr" by simp
      then obtain r t where r: "currentTrack (textTracks s) ?fr = Some r"
        and t: "track_get s r = Some t"
        by (auto simp: has_track_def split: option.splits)
      have "track_get s3 r = Some t" using t by (simp add: s3_def s1_def)
      from cues_forEach_completes [OF this, of cs]
      obtain s4 where "cues_forEach (Some r) cs s3 = Inr s4" by blast
      then have "parse_success (textTracks s1) ?fr cs s3 =
          Inr (s4\<lparr>effects := effects s4 @ [SubtitleFragProcessed True ?fr]\<rparr>)"
        using r tt by (simp add: parse_success_def)
      then show ?thesis unfolding eq by simp
    qed
  qed
qed

text \<open>What a completed \<open>onFragLoaded\<close> has done with a subtitle fragment when the reference
  timestamp is known.\<close>

lemma subtitle_path_completed:
  assumes "initPTS s = Some pts" and "ftype (frag data) = ''subtitle''"
    and "onFragLoaded parse s data = Inr s'"
  shows "\<exists>new. effects s' = effects s @ new \<and>
     (SubtitleFragProcessed False (frag data) \<in> set new \<longleftrightarrow>
        payload data = [] \<or> (\<exists>e. parser_result parse pts s data = Some (Inl e))) \<and>
     (SubtitleFragProcessed True (frag data) \<in> set new \<longleftrightarrow>
        payload data \<noteq> [] \<and> (\<exists>cs. parser_result parse pts s data = Some (Inr cs))) \<and>
     concat (map notified new) = [frag data] \<and>
     (payload data = [] \<longrightarrow> concat (map parse_call new) = []) \<and>
     (\<forall>cs. payload data \<noteq> [] \<and> parser_result parse pts s data = Some (Inr cs) \<longrightarrow>
        (case currentTrack (textTracks s) (frag data) of
           None \<Rightarrow> cs = [] \<and>
             new = [WebVTTParse (payload data) pts (cc (frag data)), SubtitleFragProcessed True (frag data)]
         | Some r \<Rightarrow>
             new = WebVTTParse (payload data) pts (cc (frag data)) #
                   map (TrackAddCue r) (new_cues (sink_cues s r) cs) @
                   [SubtitleFragProcessed True (frag data)] \<and>
             sink_cues s' r = sink_cues s r @ new_cues (sink_cues s r) cs \<and>
             set (new_cues (sink_cues s r) cs) \<subseteq> set cs \<and>
             (\<forall>c \<in> set (new_cues (sink_cues s r) cs). cue_id c \<notin> cue_id ` set (sink_cues s r)) \<and>
             distinct (map cue_id (new_cues (sink_cues s r) cs)) \<and>
             cue_id ` set cs \<subseteq> cue_id ` set (sink_cues s' r)))"
proof (cases "payload data = []")
  case True
  then have "s' = s\<lparr>effects := effects s @ [SubtitleFragProcessed False (frag data)]\<rparr>"
    using assms by (auto simp: onFragLoaded_def Let_def)
  then have "effects s' = effects s @ [SubtitleFragProcessed False (frag data)]" by simp
  then show ?thesis using True by (intro exI [of _ "[SubtitleFragProcessed False (frag data)]"]) simp
next
  case False
  let ?fr = "frag data"
  have ne: "ftype ?fr \<noteq> ''main''" using assms(2) by simp
  have run: "parse_subtitle parse pts s data = Inr s'"
    using assms False ne by (simp add: onFragLoaded_def Let_def)
  then obtain v where v: "vttCCs s = Some v" using parse_subtitle_vttCCs by blast
  let ?res = "snd (parse (payload data) pts (ensure_cc v (prevCC s) ?fr) (cc ?fr))"
  have pr: "parser_result parse pts s data = Some ?res" by (simp add: parser_result_def v)
  show ?thesis
  proof (cases ?res)
    case (Inl e)
    from parse_subtitle_Inl [where parse = parse and s = s and data = data and pts = pts, OF v Inl] run
    have "effects s' = effects s @ [WebVTTParse (payload data) pts (cc ?fr),
        LoggerLog (''Failed to parse VTT cue: '' @ e), SubtitleFragProcessed False ?fr]"
      by auto
    then show ?thesis using False pr Inl
      by (intro exI [of _ "[WebVTTParse (payload data) pts (cc ?fr),
        LoggerLog (''Failed to parse VTT cue: '' @ e), SubtitleFragProcessed False ?fr]"]) simp
  next
    case (Inr cs)
    note res = parse_subtitle_Inr [where parse = parse and s = s and data = data and pts = pts, OF v Inr run]
    show ?thesis
    proof (cases "currentTrack (textTracks s) ?fr")
      case None
      with res have "cs = []" and
        "effects s' = effects s @ [WebVTTParse (payload data) pts (cc ?fr), SubtitleFragProcessed True ?fr]"
        by simp_all
      then show ?thesis using False pr Inr None
        by (intro exI [of _ "[WebVTTParse (payload data) pts (cc ?fr), SubtitleFragProcessed True ?fr]"]) simp
    next
      case (Some r)
      let ?added = "new_cues (sink_cues s r) cs"
      from res Some have eff: "effects s' = effects s @ WebVTTParse (payload data) pts (cc ?fr) #
            map (TrackAddCue r) ?added @ [SubtitleFragProcessed True ?fr]"
        and sink: "sink_cues s' r = sink_cues s r @ ?added"
        by simp_all
      have fresh: "\<forall>c \<in> set ?added. cue_id c \<notin> cue_id ` set (sink_cues s r)"
        using new_cues_fresh by blast
      have cov: "cue_id ` set cs \<subseteq> cue_id ` set (sink_cues s' r)"
        unfolding sink by (rule new_cues_covers)
      have nt: "concat (map notified (map (TrackAddCue r) ?added)) = []"
        by (induction ?added) simp_all
      have nf: "SubtitleFragProcessed b ?fr \<notin> set (map (TrackAddCue r) ?added)" for b
        by auto
      show ?thesis
        using False pr Inr Some eff sink fresh cov nt nf new_cues_subset [of "sink_cues s r" cs]
          new_cues_distinct [of "sink_cues s r" cs]
        by (intro exI [of _ "WebVTTParse (payload data) pts (cc ?fr) #
            map (TrackAddCue r) ?added @ [SubtitleFragProcessed True ?fr]"]) simp
    qed
  qed
qed

text \<open>
  C8, as amended. Let a subtitle fragment be handled by \<open>onFragLoaded\<close> while the reference
  timestamp is known; if its payload is not empty, let the continuity map be initialised
  (\<open>onManifestLoading\<close> has run) and, in case the parser reports at least one cue, let
  \<open>frag.trackId\<close> refer to one of the controller's text tracks. Then the handler completes
  and exactly one "fragment processed" notification is emitted for the fragment. It carries
  \<open>success = false\<close> if and only if the payload is empty (and then the parser is not
  called) or the parser reports an error. Otherwise the parser has reported cues and the
  notification carries \<open>success = true\<close>; it is the last effect, after the cues were merged
  into the track \<open>textTracks[frag.trackId]\<close>: a cue is added only when no cue with its id
  is present in the track, the added cues have distinct ids, and afterwards every parsed
  cue's id is in the track.
\<close>

theorem subtitle_frag_processed:
  assumes "initPTS s = Some pts" and "ftype (frag data) = ''subtitle''"
    and "payload data \<noteq> [] \<longrightarrow> vttCCs s \<noteq> None"
    and "\<forall>cs. payload data \<noteq> [] \<and> parser_result parse pts s data = Some (Inr cs) \<and> cs \<noteq> [] \<longrightarrow>
           has_track s (frag data)"
  shows "\<exists>s' new. onFragLoaded parse s data = Inr s' \<and> effects s' = effects s @ new \<and>
     (SubtitleFragProcessed False (frag data) \<in> set new \<longleftrightarrow>
        payload data = [] \<or> (\<exists>e. parser_result parse pts s data = Some (Inl e))) \<and>
     (SubtitleFragProcessed True (frag data) \<in> set new \<longleftrightarrow>
        payload data \<noteq> [] \<and> (\<exists>cs. parser_result parse pts s data = Some (Inr cs))) \<and>
     concat (map notified new) = [frag data] \<and>
     (payload data = [] \<longrightarrow> concat (map parse_call new) = []) \<and>
     (\<forall>cs. payload data \<noteq> [] \<and> parser_result parse pts s data = Some (Inr cs) \<longrightarrow>
        (case currentTrack (textTracks s) (frag data) of
           None \<Rightarrow> cs = [] \<and>
             new = [WebVTTParse (payload data) pts (cc (frag data)), SubtitleFragProcessed True (frag data)]
         | Some r \<Rightarrow>
             new = WebVTTParse (payload data) pts (cc (frag data)) #
                   map (TrackAddCue r) (new_cues (sink_cues s r) cs) @
                   [SubtitleFragProcessed True (frag data)] \<and>
             sink_cues s' r = sink_cues s r @ new_cues (sink_cues s r) cs \<and>
             set (new_cues (sink_cues s r) cs) \<subseteq> set cs \<and>
             (\<forall>c \<in> set (new_cues (sink_cues s r) cs). cue_id c \<notin> cue_id ` set (sink_cues s r)) \<and>
             distinct (map cue_id (new_cues (sink_cues s r) cs)) \<and>
             cue_id ` set cs \<subseteq> cue_id ` set (sink_cues s' r)))"
proof -
  have "\<exists>s'. onFragLoaded parse s data = Inr s'"
  proof (cases "payload data = []")
    case True
    then show ?thesis using assms(1,2) by (simp add: onFragLoaded_def Let_def)
  next
    case False
    then have v: "vttCCs s \<noteq> None" using assms(3) by simp
    have t: "\<forall>cs. parser_result parse pts s data = Some (Inr cs) \<and> cs \<noteq> [] \<longrightarrow> has_track s (frag data)"
      using assms(4) False by simp
    from parse_subtitle_completes [OF v t] show ?thesis
      using False assms(1,2) by (simp add: onFragLoaded_def Let_def)
  qed
  then obtain s' where run: "onFragLoaded parse s data = Inr s'" by blast
  from subtitle_path_completed [OF assms(1,2) run] run show ?thesis by blast
qed

section \<open>The PTS synchronisation gate\<close>

text \<open>The subtitle path emits one notification and calls the parser once, and leaves the
  queue and the reference timestamp as they are; the drain loop does so for each queued
  fragment, in order.\<close>

lemma notified_TrackAddCue [simp]: "concat (map notified (map (TrackAddCue r) cs)) = []"
  by (induction cs) simp_all

lemma parse_call_TrackAddCue [simp]: "concat (map parse_call (map (TrackAddCue r) cs)) = []"
  by (induction cs) simp_all

lemma parse_subtitle_once:
  assumes "parse_subtitle parse pts s data = Inr s'"
  shows "unparsedVttFrags s' = unparsedVttFrags s \<and> initPTS s' = initPTS s \<and>
     (\<exists>new. effects s' = effects s @ new \<and>
        concat (map notified new) = [frag data] \<and>
        concat (map parse_call new) = [(payload data, pts, cc (frag data))])"
proof -
  let ?fr = "frag data"
  from assms obtain v where v: "vttCCs s = Some v" using parse_subtitle_vttCCs by blast
  let ?res = "snd (parse (payload data) pts (ensure_cc v (prevCC s) ?fr) (cc ?fr))"
  show ?thesis
  proof (cases ?res)
    case (Inl e)
    from parse_subtitle_Inl [where parse = parse and s = s and data = data and pts = pts, OF v Inl] assms
    show ?thesis by auto
  next
    case (Inr cs)
    note res = parse_subtitle_Inr [where parse = parse and s = s and data = data and pts = pts, OF v Inr assms]
    show ?thesis
    proof (cases "currentTrack (textTracks s) ?fr")
      case None
      with res show ?thesis by simp
    next
      case (Some r)
      with res show ?thesis by simp
    qed
  qed
qed



text \<open>\<open>onFragLoaded\<close> completes under the same conditions, and so does the drain loop when
  they hold for each queued fragment.\<close>

lemma onFragLoaded_completes:
  assumes "vttCCs s \<noteq> None" and "has_track s (frag data)"
  shows "\<exists>s'. onFragLoaded parse s data = Inr s'"
proof (cases "ftype (frag data) \<noteq> ''main'' \<and> ftype (frag data) = ''subtitle'' \<and> payload data \<noteq> []")
  case False
  then show ?thesis by (auto simp: onFragLoaded_def Let_def)
next
  case True
  show ?thesis
  proof (cases "initPTS s")
    case None
    then show ?thesis using True by (simp add: onFragLoaded_def Let_def)
  next
    case (Some pts)
    have "\<forall>cs. parser_result parse pts s data = Some (Inr cs) \<and> cs \<noteq> [] \<longrightarrow> has_track s (frag data)"
      using assms(2) by simp
    from parse_subtitle_completes [OF assms(1) this]
    show ?thesis using True Some by (simp add: onFragLoaded_def Let_def)
  qed
qed

lemma onFragLoaded_keeps:
  assumes "onFragLoaded parse s data = Inr s'"
  shows "textTracks s' = textTracks s \<and> (vttCCs s \<noteq> None \<longrightarrow> vttCCs s' \<noteq> None) \<and>
         (\<forall>m. length (medias s' m) = length (medias s m))"
proof (cases "ftype (frag data) \<noteq> ''main'' \<and> ftype (frag data) = ''subtitle'' \<and> payload data \<noteq> []")
  case False
  then show ?thesis using assms by (auto simp: onFragLoaded_def Let_def split: if_splits)
next
  case True
  show ?thesis
  proof (cases "initPTS s")
    case None
    then show ?thesis using True assms by (auto simp: onFragLoaded_def Let_def)
  next
    case (Some pts)
    then have "parse_subtitle parse pts s data = Inr s'"
      using True assms by (simp add: onFragLoaded_def Let_def)
    from parse_subtitle_keeps [OF this] show ?thesis by simp
  qed
qed

lemma has_track_cong:
  "textTracks s' = textTracks s \<Longrightarrow> \<forall>m. length (medias s' m) = length (medias s m) \<Longrightarrow>
   has_track s' fr = has_track s fr"
  by (simp add: has_track_def track_get_def split: option.splits)

lemma frags_forEach_completes:
  assumes "vttCCs s \<noteq> None" and "\<forall>d \<in> set q. has_track s (frag d)"
  shows "\<exists>s'. frags_forEach parse q s = Inr s'"
  using assms
proof (induction q arbitrary: s)
  case Nil
  then show ?case by simp
next
  case (Cons d q)
  have "has_track s (frag d)" using Cons.prems(2) by simp
  from onFragLoaded_completes [OF Cons.prems(1) this, of parse]
  obtain s1 where one: "onFragLoaded parse s d = Inr s1" by blast
  note k = onFragLoaded_keeps [OF one]
  have v1: "vttCCs s1 \<noteq> None" using k Cons.prems(1) by simp
  have "\<forall>d \<in> set q. has_track s1 (frag d)"
    using Cons.prems(2) k by (simp add: has_track_cong [of s1 s])
  from Cons.IH [OF v1 this] one show ?case by simp
qed

text \<open>\<open>onInitPtsFound\<close> completes when the continuity map is defined and every queued
  fragment refers to an existing text track.\<close>

lemma onInitPtsFound_completes:
  assumes "vttCCs s \<noteq> None" and "\<forall>d \<in> set (unparsedVttFrags s). has_track s (frag d)"
  shows "\<exists>s'. onInitPtsFound parse s pts = Inr s'"
proof -
  let ?s1 = "if initPTS s = None then s\<lparr>initPTS := Some pts\<rparr> else s"
  have v: "vttCCs ?s1 \<noteq> None" using assms(1) by simp
  have h: "has_track ?s1 fr = has_track s fr" for fr by (rule has_track_cong) simp_all
  have q: "\<forall>d \<in> set (unparsedVttFrags ?s1). has_track ?s1 (frag d)"
    unfolding h using assms(2) by simp
  from frags_forEach_completes [OF v q, of parse]
  obtain s2 where "frags_forEach parse (unparsedVttFrags ?s1) ?s1 = Inr s2" by blast
  then show ?thesis by (simp add: onInitPtsFound_def Let_def)
qed


text \<open>The example: the loaded controller is the result of the events.\<close>

lemma example_loaded_reached:
  "onManifestLoaded (onManifestLoading (onMediaAttaching example_controller 0)) example_manifest
     = Inr example_loaded"
  by (simp add: onManifestLoaded_def onManifestLoading_def onMediaAttaching_def
      example_controller_def constructor_def example_config_def example_manifest_def
      createTextTrack_def track_update_def Let_def example_loaded_def)

lemmas example_defs =
  example_loaded_def example_config_def example_parser_def example_subtitle_def example_cue_def


theorem subtitle_frag_processed_witness:
  "\<not> isl (onFragLoaded example_parser (example_loaded\<lparr>initPTS := Some 0\<rparr>) (example_subtitle 1 [1])) \<and>
   effects (projr (onFragLoaded example_parser (example_loaded\<lparr>initPTS := Some 0\<rparr>) (example_subtitle 1 [1])))
     = [WebVTTParse [1] 0 0, TrackAddCue (0, 0) (example_cue ''a''), TrackAddCue (0, 0) (example_cue ''b''),
        SubtitleFragProcessed True (frag (example_subtitle 1 [1]))] \<and>
   sink_cues (projr (onFragLoaded example_parser (example_loaded\<lparr>initPTS := Some 0\<rparr>) (example_subtitle 1 [1])))
     (0, 0) = [example_cue ''a'', example_cue ''b'']"
proof -
  let ?s = "example_loaded\<lparr>initPTS := Some 0\<rparr>"
  let ?d = "example_subtitle 1 [1]"
  let ?X = "onFragLoaded example_parser ?s ?d"
  have h1: "initPTS ?s = Some 0" by simp
  have h2: "ftype (frag ?d) = ''subtitle''" by (simp add: example_subtitle_def)
  have h3: "payload ?d \<noteq> [] \<longrightarrow> vttCCs ?s \<noteq> None" by (simp add: example_loaded_def)
  have h4: "\<forall>cs. payload ?d \<noteq> [] \<and> parser_result example_parser 0 ?s ?d = Some (Inr cs) \<and> cs \<noteq> [] \<longrightarrow>
      has_track ?s (frag ?d)"
    by (simp add: has_track_def currentTrack_def track_get_def example_defs)
  have pr: "parser_result example_parser 0 ?s ?d
      = Some (Inr [example_cue ''a'', example_cue ''b'', example_cue ''a''])"
    by (simp add: parser_result_def example_defs)
  have ct: "currentTrack (textTracks example_loaded) (frag ?d) = Some (0, 0)"
    by (simp add: currentTrack_def example_defs)
  have sk: "sink_cues ?s (0, 0) = []" by (simp add: sink_cues_def track_get_def example_defs)
  have nc: "new_cues [] [example_cue ''a'', example_cue ''b'', example_cue ''a'']
      = [example_cue ''a'', example_cue ''b'']"
    by (simp add: getCueById_def example_cue_def)
  have pl: "payload ?d \<noteq> []" "payload ?d = [1]" "cc (frag ?d) = 0" by (simp_all add: example_subtitle_def)
  have ef: "effects ?s = []" by (simp add: example_loaded_def)
  from subtitle_frag_processed [OF h1 h2 h3 h4]
  obtain s' new where run: "?X = Inr s'" and e: "effects s' = effects ?s @ new"
    and s: "\<forall>cs. payload ?d \<noteq> [] \<and> parser_result example_parser 0 ?s ?d = Some (Inr cs) \<longrightarrow>
        (case currentTrack (textTracks ?s) (frag ?d) of
           None \<Rightarrow> cs = [] \<and>
             new = [WebVTTParse (payload ?d) 0 (cc (frag ?d)), SubtitleFragProcessed True (frag ?d)]
         | Some r \<Rightarrow>
             new = WebVTTParse (payload ?d) 0 (cc (frag ?d)) #
                   map (TrackAddCue r) (new_cues (sink_cues ?s r) cs) @
                   [SubtitleFragProcessed True (frag ?d)] \<and>
             sink_cues s' r = sink_cues ?s r @ new_cues (sink_cues ?s r) cs \<and>
             set (new_cues (sink_cues ?s r) cs) \<subseteq> set cs \<and>
             (\<forall>c \<in> set (new_cues (sink_cues ?s r) cs). cue_id c \<notin> cue_id ` set (sink_cues ?s r)) \<and>
             distinct (map cue_id (new_cues (sink_cues ?s r) cs)) \<and>
             cue_id ` set cs \<subseteq> cue_id ` set (sink_cues s' r))"
    by blast
  from s [rule_format, of "[example_cue ''a'', example_cue ''b'', example_cue ''a'']"] pr pl(1)
  have "new = WebVTTParse (payload ?d) 0 (cc (frag ?d)) #
          map (TrackAddCue (0, 0)) [example_cue ''a'', example_cue ''b''] @
          [SubtitleFragProcessed True (frag ?d)] \<and>
        sink_cues s' (0, 0) = [example_cue ''a'', example_cue ''b'']"
    by (simp add: ct sk nc del: new_cues.simps)
  then show ?thesis using e ef pl by (simp add: run)
qed

text \<open>
  C8 as stated fails where \<open>frag.trackId\<close> refers to no text track of the controller and
  the parser reports cues: \<open>textTracks[frag.trackId]\<close> is \<open>undefined\<close>, the success
  callback throws at \<open>currentTrack.cues\<close> on the first cue, and no notification is emitted,
  neither with \<open>success = true\<close> nor with \<open>success = false\<close>. The source never compares
  \<open>frag.trackId\<close> with the tracks it holds. It fails as well on a controller that has seen
  no \<open>onManifestLoading\<close>: the continuity map is \<open>undefined\<close>, and the handler throws at
  \<open>vttCCs[frag.cc]\<close> before any call of the parser, with no notification.
\<close>

theorem subtitle_unknown_track_counterexample:
  "initPTS (example_loaded\<lparr>initPTS := Some 0\<rparr>) = Some 0 \<and>
   textTracks (example_loaded\<lparr>initPTS := Some 0\<rparr>) = [(0, 0)] \<and>
   ftype (frag example_orphan) = ''subtitle'' \<and> trackId (frag example_orphan) = 5 \<and>
   payload example_orphan = [1] \<and>
   parser_result example_parser 0 (example_loaded\<lparr>initPTS := Some 0\<rparr>) example_orphan
     = Some (Inr [example_cue ''a'', example_cue ''b'', example_cue ''a'']) \<and>
   isl (onFragLoaded example_parser (example_loaded\<lparr>initPTS := Some 0\<rparr>) example_orphan) \<and>
   fst (projl (onFragLoaded example_parser (example_loaded\<lparr>initPTS := Some 0\<rparr>) example_orphan))
     = TypeError \<and>
   effects (snd (projl (onFragLoaded example_parser (example_loaded\<lparr>initPTS := Some 0\<rparr>) example_orphan)))
     = [WebVTTParse [1] 0 0] \<and>
   concat (map notified
     (effects (snd (projl (onFragLoaded example_parser (example_loaded\<lparr>initPTS := Some 0\<rparr>) example_orphan)))))
     = [] \<and>
   onInitPtsFound example_parser example_controller 0 = Inr (example_controller\<lparr>initPTS := Some 0\<rparr>) \<and>
   vttCCs (example_controller\<lparr>initPTS := Some 0\<rparr>) = None \<and>
   onFragLoaded example_parser (example_controller\<lparr>initPTS := Some 0\<rparr>) (example_subtitle 1 [1])
     = Inl (TypeError, example_controller\<lparr>initPTS := Some 0\<rparr>) \<and>
   effects (example_controller\<lparr>initPTS := Some 0\<rparr>) = []"
  by (simp add: onInitPtsFound_def onFragLoaded_def parse_subtitle_def parse_success_def parse_error_def
      currentTrack_def track_get_def ensure_cc_def Let_def parser_result_def
      example_loaded_def example_config_def example_parser_def example_orphan_def example_subtitle_def
      example_cue_def example_controller_def constructor_def)




section \<open>Reachable states\<close>

text \<open>\<open>onFragLoaded\<close> never changes the reference timestamp, and it changes the queue only
  by appending a subtitle fragment with a payload while the timestamp is unset. A completed
  \<open>onInitPtsFound\<close> leaves the queue empty and the timestamp set.\<close>

lemma onFragLoaded_queue:
  assumes "onFragLoaded parse s data = Inr s'"
  shows "initPTS s' = initPTS s \<and>
     (unparsedVttFrags s' = unparsedVttFrags s \<or>
      initPTS s = None \<and> ftype (frag data) = ''subtitle'' \<and> payload data \<noteq> [] \<and>
      unparsedVttFrags s' = unparsedVttFrags s @ [data])"
proof (cases "ftype (frag data) = ''main''")
  case True
  then show ?thesis using assms by (auto simp: onFragLoaded_def Let_def)
next
  case False
  note nm = False
  show ?thesis
  proof (cases "ftype (frag data) = ''subtitle'' \<and> payload data \<noteq> []")
    case False
    then show ?thesis using assms nm by (auto simp: onFragLoaded_def Let_def split: if_splits)
  next
    case True
    show ?thesis
    proof (cases "initPTS s")
      case None
      then show ?thesis using assms nm True by (auto simp: onFragLoaded_def Let_def)
    next
      case (Some pts)
      then have "parse_subtitle parse pts s data = Inr s'"
        using assms nm True by (simp add: onFragLoaded_def Let_def)
      from parse_subtitle_once [OF this] show ?thesis by simp
    qed
  qed
qed

lemma frags_forEach_initPTS:
  "frags_forEach parse q s = Inr s' \<Longrightarrow> initPTS s' = initPTS s"
proof (induction q arbitrary: s)
  case Nil
  then show ?case by simp
next
  case (Cons d q)
  from Cons.prems obtain s1 where one: "onFragLoaded parse s d = Inr s1"
    and rest: "frags_forEach parse q s1 = Inr s'"
    by (auto split: sum.splits)
  from Cons.IH [OF rest] onFragLoaded_queue [OF one] show ?case by simp
qed

lemma onInitPtsFound_result:
  assumes "onInitPtsFound parse s pts = Inr s'"
  shows "unparsedVttFrags s' = [] \<and> initPTS s' \<noteq> None"
proof -
  let ?s1 = "if initPTS s = None then s\<lparr>initPTS := Some pts\<rparr> else s"
  have p1: "initPTS ?s1 \<noteq> None" by simp
  show ?thesis
  proof (cases "unparsedVttFrags ?s1 = []")
    case True
    then have "s' = ?s1" using assms by (simp add: onInitPtsFound_def Let_def)
    then show ?thesis using True p1 by simp
  next
    case False
    then obtain s2 where run: "frags_forEach parse (unparsedVttFrags ?s1) ?s1 = Inr s2"
      and s': "s' = s2\<lparr>unparsedVttFrags := []\<rparr>"
      using assms by (auto simp: onInitPtsFound_def Let_def split: sum.splits)
    from frags_forEach_initPTS [OF run] p1 s' show ?thesis by simp
  qed
qed

lemma onMediaDetaching_frame:
  "unparsedVttFrags (onMediaDetaching s) = unparsedVttFrags s"
  "initPTS (onMediaDetaching s) = initPTS s"
  by (simp_all add: onMediaDetaching_def)



text \<open>In a reachable state the queue holds only subtitle fragments with a payload.\<close>

lemma reachable_queue_holds_subtitles:
  "reachable s \<Longrightarrow> \<forall>d \<in> set (unparsedVttFrags s). ftype (frag d) = ''subtitle'' \<and> payload d \<noteq> []"
proof (induction rule: reachable.induct)
  case (r_constructor cfg ms)
  then show ?case by (simp add: constructor_def)
next
  case (r_onFragLoaded s parse data s')
  from onFragLoaded_queue [OF r_onFragLoaded.hyps(2)] r_onFragLoaded.IH
  show ?case by auto
next
  case (r_onInitPtsFound s parse pts s')
  from onInitPtsFound_result [OF r_onInitPtsFound.hyps(2)] show ?case by simp
next
  case (r_onManifestLoading s)
  then show ?case by (simp add: onManifestLoading_frame)
next
  case (r_onManifestLoaded s mdata s')
  from onManifestLoaded_frame(1) [OF r_onManifestLoaded.hyps(2)] r_onManifestLoaded.IH
  show ?case by simp
next
  case (r_onMediaAttaching s m)
  then show ?case by (simp add: onMediaAttaching_def)
next
  case (r_onMediaDetaching s)
  then show ?case by (simp add: onMediaDetaching_frame)
qed

text \<open>The example states are reachable.\<close>

lemma example_loaded_reachable: "reachable example_loaded"
proof -
  have "reachable example_controller"
    unfolding example_controller_def by (rule r_constructor)
  then have "reachable (onMediaAttaching example_controller 0)" by (rule r_onMediaAttaching)
  then have "reachable (onManifestLoading (onMediaAttaching example_controller 0))"
    by (rule r_onManifestLoading)
  then show ?thesis using example_loaded_reached by (rule r_onManifestLoaded)
qed



lemma onInitPtsFound_completes_example:
  "\<not> isl (onInitPtsFound example_parser
      (example_loaded\<lparr>unparsedVttFrags := [example_subtitle 1 [1], example_subtitle 2 [0]]\<rparr>) 3)"
proof -
  let ?q2 = "example_loaded\<lparr>unparsedVttFrags := [example_subtitle 1 [1], example_subtitle 2 [0]]\<rparr>"
  have v: "vttCCs ?q2 \<noteq> None" by (simp add: example_loaded_def)
  have t: "\<forall>d \<in> set (unparsedVttFrags ?q2). has_track ?q2 (frag d)"
    by (simp add: has_track_def currentTrack_def track_get_def example_defs)
  from onInitPtsFound_completes [OF v t, of example_parser 3] show ?thesis by auto
qed

lemma reachable_queue_holds_subtitles_example:
  "reachable (example_loaded\<lparr>unparsedVttFrags := [example_subtitle 1 [1]]\<rparr>) \<and>
   ftype (frag (example_subtitle 1 [1])) = ''subtitle'' \<and> payload (example_subtitle 1 [1]) \<noteq> []"
proof -
  let ?d1 = "example_subtitle 1 [1]"
  let ?q1 = "example_loaded\<lparr>unparsedVttFrags := [?d1]\<rparr>"
  have e1: "onFragLoaded example_parser example_loaded ?d1 = Inr ?q1"
    by (simp add: onFragLoaded_def Let_def example_defs)
  from example_loaded_reachable e1 have r: "reachable ?q1" by (rule r_onFragLoaded)
  from reachable_queue_holds_subtitles [OF r] r show ?thesis by simp
qed

section \<open>The overlap resolver on the spec's example\<close>

text \<open>On the store \<open>[0, 10]\<close> the candidate \<open>[8, 20]\<close> (ratio 2/12) is forwarded and the
  range becomes \<open>[0, 20]\<close>; the candidate \<open>[9, 11]\<close> (ratio 1) is then dropped and the range
  stays \<open>[0, 20]\<close>.\<close>

lemma example_merge_then_drop:
  "addCues_loop (Suc 0) [(Fin 0, Fin 10)] False (Fin 8) (Fin 20) = ([(Fin 0, Fin 20)], True, False) \<and>
   addCues_loop (Suc 0) [(Fin 0, Fin 20)] False (Fin 9) (Fin 11) = ([(Fin 0, Fin 20)], True, True)"
  by code_simp

lemma addCues_merge_then_drop:
  "addCues TextTrack1 (Fin 8) (Fin 20) 0 (example_controller\<lparr>cueRanges := [(Fin 0, Fin 10)]\<rparr>) =
     example_controller\<lparr>cueRanges := [(Fin 0, Fin 20)], effects := [CuesNewCue None (Fin 8) (Fin 20) 0]\<rparr> \<and>
   addCues TextTrack1 (Fin 9) (Fin 11) 0
     (example_controller\<lparr>cueRanges := [(Fin 0, Fin 20)], effects := [CuesNewCue None (Fin 8) (Fin 20) 0]\<rparr>) =
     example_controller\<lparr>cueRanges := [(Fin 0, Fin 20)], effects := [CuesNewCue None (Fin 8) (Fin 20) 0]\<rparr>"
  using example_merge_then_drop
  by (simp add: addCues_def this_channel_def example_controller_def constructor_def)

end
